theory Spec2Isabelle
  imports Main "HOL-Library.AList"
begin

unbundle bit_operations_syntax

section \<open>Numbers and strings of the host language\<close>

text \<open>
  The element is JavaScript.  A string is modelled as a \<^typ>\<open>string\<close>, one \<^typ>\<open>char\<close>
  per code unit (code units below 256).  A Number is a double; the widget only ever
  computes with integer-valued ones, so a Number is \<open>NaN\<close>, an infinity or an integer.
\<close>

datatype js_number = NaN | PosInf | NegInf | Intg int

text \<open>
  \<open>ToInt32\<close>, the coercion that the bitwise operators apply to each operand: \<open>NaN\<close> and the
  infinities become 0, an integer is reduced modulo \<open>2^32\<close> into \<open>[-2^31, 2^31)\<close>.
\<close>

definition to_int32 :: "js_number \<Rightarrow> int" where
  "to_int32 x =
     (case x of
        Intg n \<Rightarrow> (let m = n mod 2 ^ 32 in if 2 ^ 31 \<le> m then m - 2 ^ 32 else m)
      | _ \<Rightarrow> 0)"

text \<open>The operator \<open>^\<close>: both operands through \<open>ToInt32\<close>, then bitwise exclusive or.\<close>

definition js_xor :: "js_number \<Rightarrow> js_number \<Rightarrow> int" where
  "js_xor a b = to_int32 a XOR to_int32 b"

subsection \<open>Digits\<close>

text \<open>
  The value of a character as a digit: \<open>0-9\<close>, then \<open>a-z\<close> or \<open>A-Z\<close> for 10 to 35.
\<close>

definition digit_val :: "char \<Rightarrow> nat option" where
  "digit_val c =
     (let n = (of_char c :: nat) in
      if 48 \<le> n \<and> n \<le> 57 then Some (n - 48)
      else if 97 \<le> n \<and> n \<le> 122 then Some (n - 87)
      else if 65 \<le> n \<and> n \<le> 90 then Some (n - 55)
      else None)"

definition is_digit :: "nat \<Rightarrow> char \<Rightarrow> bool" where
  "is_digit r c = (case digit_val c of Some d \<Rightarrow> d < r | None \<Rightarrow> False)"

text \<open>The character that \<open>Number.prototype.toString\<close> writes for a digit: lower case.\<close>

definition digit_char :: "nat \<Rightarrow> char" where
  "digit_char d = (if d < 10 then char_of (48 + d) else char_of (87 + d))"

text \<open>The integer that a string of digits denotes in radix \<open>r\<close>.\<close>

definition digits_value :: "nat \<Rightarrow> string \<Rightarrow> nat" where
  "digits_value r ds = foldl (\<lambda>a c. a * r + the (digit_val c)) 0 ds"

text \<open>The digits of a natural number in radix \<open>r\<close>, most significant first.\<close>

function to_digits :: "nat \<Rightarrow> nat \<Rightarrow> string" where
  "to_digits r n =
     (if r < 2 \<or> n < r then [digit_char n]
      else to_digits r (n div r) @ [digit_char (n mod r)])"
  by pat_completeness auto
termination
  by (relation "measure snd") auto

declare to_digits.simps [simp del]

subsection \<open>Numbers to strings\<close>

text \<open>
  \<open>String(n)\<close> and \<open>'' + n\<close> for an integer-valued Number \<open>n\<close>: the decimal numeral with a
  minus sign when negative (JavaScript switches to exponent notation from \<open>10^21\<close> on; the
  integers of the widget, 32-bit results and tab numbers, are far below).
\<close>

definition string_of_int :: "int \<Rightarrow> string" where
  "string_of_int i =
     (if i < 0 then CHR ''-'' # to_digits 10 (nat (- i)) else to_digits 10 (nat i))"

text \<open>\<open>Number.prototype.toString(36)\<close>.\<close>

definition toString36 :: "js_number \<Rightarrow> string" where
  "toString36 x =
     (case x of
        NaN \<Rightarrow> ''NaN''
      | PosInf \<Rightarrow> ''Infinity''
      | NegInf \<Rightarrow> ''-Infinity''
      | Intg i \<Rightarrow> (if i < 0 then CHR ''-'' # to_digits 36 (nat (- i)) else to_digits 36 (nat i)))"

subsection \<open>\<open>parseInt\<close>\<close>

text \<open>
  White space that \<open>parseInt\<close> skips, among the code units below 256: TAB, LF, VT, FF, CR,
  space and the no-break space.
\<close>

definition is_ws :: "char \<Rightarrow> bool" where
  "is_ws c = ((of_char c :: nat) \<in> {9, 10, 11, 12, 13, 32, 160})"

text \<open>
  The Number for a non-negative integer: exact up to \<open>2^53\<close>, beyond that rounded to 53
  significant bits (ties to even), and \<open>Infinity\<close> from \<open>2^1024\<close> on.  Beyond \<open>2^53\<close> the
  language lets \<open>parseInt\<close> approximate the value for a radix such as 36, and an engine may
  return a neighbouring Number; the worksheet ids of the service, six or seven digits of
  base 36, are far below.
\<close>

fun bit_length :: "nat \<Rightarrow> nat" where
  "bit_length n = (if n = 0 then 0 else Suc (bit_length (n div 2)))"

declare bit_length.simps [simp del]

definition number_of_nat :: "nat \<Rightarrow> js_number" where
  "number_of_nat n =
     (if n \<le> 2 ^ 53 then Intg (int n)
      else
        (let e = bit_length n - 53;
             q = n div 2 ^ e;
             r = n mod 2 ^ e;
             h = 2 ^ (e - 1);
             q' = (if h < r \<or> (r = h \<and> odd q) then q + 1 else q);
             m = q' * 2 ^ e
         in if 2 ^ 1024 \<le> m then PosInf else Intg (int m)))"

definition negate :: "js_number \<Rightarrow> js_number" where
  "negate x = (case x of NaN \<Rightarrow> NaN | PosInf \<Rightarrow> NegInf | NegInf \<Rightarrow> PosInf | Intg i \<Rightarrow> Intg (- i))"

text \<open>
  \<open>parseInt(s, radix)\<close>, with radix 0 for a call that gives none: skip white space, take
  one sign, strip \<open>0x\<close> when the radix is 16 or absent, read the longest prefix of digits
  of the radix; no digit at all gives \<open>NaN\<close>.  Whatever follows the digits is ignored.
\<close>

definition skip_sign :: "string \<Rightarrow> string" where
  "skip_sign s1 =
     (if s1 \<noteq> [] \<and> (hd s1 = CHR ''+'' \<or> hd s1 = CHR ''-'') then tl s1 else s1)"

definition parseInt :: "string \<Rightarrow> nat \<Rightarrow> js_number" where
  "parseInt s radix =
     (let s1 = dropWhile is_ws s;
          neg = (s1 \<noteq> [] \<and> hd s1 = CHR ''-'');
          s2 = skip_sign s1;
          strip = (radix = 0 \<or> radix = 16);
          r0 = (if radix = 0 then 10 else radix)
      in if r0 < 2 \<or> 36 < r0 then NaN
         else
           (let hex = (strip \<and> (take 2 s2 = ''0x'' \<or> take 2 s2 = ''0X''));
                s3 = (if hex then drop 2 s2 else s2);
                r = (if hex then 16 else r0);
                z = takeWhile (is_digit r) s3
            in if z = [] then NaN
               else (let v = number_of_nat (digits_value r z) in if neg then negate v else v)))"

section \<open>The worksheet-id / grid-id codec\<close>

text \<open>
  The names of the source that end in an underscore (\<open>wid_to_gid_\<close>, \<open>gid_to_wid_\<close>,
  \<open>generateCacheKey_\<close>, \<open>getLink_\<close>, \<open>rowDataCache_\<close>, \<open>SCOPE_\<close>) or begin with one
  (the methods of the element) are written here without it.

  \<^verbatim>\<open>function wid_to_gid_(wid) { return parseInt(String(wid), 36) ^ 31578; }\<close>
  for a string \<open>wid\<close>, on which \<open>String\<close> is the identity.
\<close>

definition wid_to_gid :: "string \<Rightarrow> int" where
  "wid_to_gid wid = js_xor (parseInt wid 36) (Intg 31578)"

text \<open>
  \<^verbatim>\<open>function gid_to_wid_(gid) { return parseInt((gid ^ 31578)).toString(36); }\<close>
  The argument of \<open>parseInt\<close> is a Number, which \<open>parseInt\<close> turns into its string first.
\<close>

definition gid_to_wid :: "js_number \<Rightarrow> string" where
  "gid_to_wid gid = toString36 (parseInt (string_of_int (js_xor gid (Intg 31578))) 0)"

text \<open>
  The worksheet ids the round trip is stated for: a canonical lower-case base-36 numeral,
  that is, digits \<open>0-9a-z\<close> only, not empty, and no leading zero except for \<open>0\<close> itself.
\<close>

definition is_wid_char :: "char \<Rightarrow> bool" where
  "is_wid_char c =
     (let n = (of_char c :: nat) in (48 \<le> n \<and> n \<le> 57) \<or> (97 \<le> n \<and> n \<le> 122))"

definition canonical36 :: "string \<Rightarrow> bool" where
  "canonical36 w = (w \<noteq> [] \<and> (\<forall>c\<in>set w. is_wid_char c) \<and> (hd w = CHR ''0'' \<longrightarrow> w = ''0''))"

section \<open>Values of the feed API\<close>

text \<open>
  The responses are parsed JSON, and the element reads and rewrites them as untyped
  objects, so a value is modelled as such.  An object is the list of its properties in
  insertion order.  An array carries its elements and, since the element stores a named
  property on the array of rows, its named properties.  \<open>Date v\<close> is the date object
  \<open>new Date(v)\<close>, and \<open>Builtin\<close> a method inherited from a prototype.
\<close>

datatype jsval =
    Undefined
  | Null
  | Bool bool
  | Number js_number
  | Str string
  | Date jsval
  | Builtin
  | Arr "jsval list" "(string \<times> jsval) list"
  | Obj "(string \<times> jsval) list"

datatype error = TypeError | Error string

text \<open>What \<open>if (v)\<close>, \<open>!v\<close> and \<open>v && w\<close> test.\<close>

fun truthy :: "jsval \<Rightarrow> bool" where
  "truthy Undefined = False"
| "truthy Null = False"
| "truthy (Bool b) = b"
| "truthy (Number x) = (x \<noteq> NaN \<and> x \<noteq> Intg 0)"
| "truthy (Str s) = (s \<noteq> [])"
| "truthy (Date v) = True"
| "truthy Builtin = True"
| "truthy (Arr xs ps) = True"
| "truthy (Obj fs) = True"

definition field :: "(string \<times> jsval) list \<Rightarrow> string \<Rightarrow> jsval" where
  "field fs k = (case map_of fs k of Some v \<Rightarrow> v | None \<Rightarrow> Undefined)"

text \<open>
  The property read \<open>v.k\<close>, for the data properties the element reads (\<open>feed\<close>,
  \<open>entry\<close>, \<open>title\<close>, \<open>updated\<close>, \<open>author\<close>, \<open>email\<close>, \<open>name\<close>, \<open>id\<close>, \<open>link\<close>, \<open>rel\<close>,
  \<open>href\<close>, \<open>$t\<close>).  Reading from \<open>undefined\<close> or \<open>null\<close> throws; a primitive has none of
  them, except that a string inherits the method \<open>link\<close>.
\<close>

fun get :: "jsval \<Rightarrow> string \<Rightarrow> error + jsval" where
  "get Undefined k = Inl TypeError"
| "get Null k = Inl TypeError"
| "get (Obj fs) k = Inr (field fs k)"
| "get (Arr xs ps) k = Inr (field ps k)"
| "get (Str s) k = Inr (if k = ''link'' then Builtin else Undefined)"
| "get (Bool b) k = Inr Undefined"
| "get (Number x) k = Inr Undefined"
| "get (Date v) k = Inr Undefined"
| "get Builtin k = Inr Undefined"

text \<open>
  The element read \<open>v[i]\<close>: an array element, a character of a string, or the property
  of an object whose name is the numeral \<open>i\<close>; \<open>undefined\<close> where there is none.
\<close>

fun index :: "jsval \<Rightarrow> nat \<Rightarrow> error + jsval" where
  "index Undefined i = Inl TypeError"
| "index Null i = Inl TypeError"
| "index (Arr xs ps) i = Inr (if i < length xs then xs ! i else Undefined)"
| "index (Str s) i = Inr (if i < length s then Str [s ! i] else Undefined)"
| "index (Obj fs) i = Inr (field fs (string_of_int (int i)))"
| "index (Bool b) i = Inr Undefined"
| "index (Number x) i = Inr Undefined"
| "index (Date v) i = Inr Undefined"
| "index Builtin i = Inr Undefined"

text \<open>
  The assignment \<open>v.k = x\<close>, returning the object as it is afterwards.  An existing
  property keeps its place, a new one goes last.  On \<open>undefined\<close>, \<open>null\<close> and (in strict
  code) a primitive it throws.  Dates and built-in methods take the property as any object
  does; the model keeps no properties for them (JSON holds neither).
\<close>

fun assign :: "jsval \<Rightarrow> string \<Rightarrow> jsval \<Rightarrow> error + jsval" where
  "assign (Obj fs) k x = Inr (Obj (AList.update k x fs))"
| "assign (Arr xs ps) k x = Inr (Arr xs (AList.update k x ps))"
| "assign (Date v) k x = Inr (Date v)"
| "assign Builtin k x = Inr Builtin"
| "assign Undefined k x = Inl TypeError"
| "assign Null k x = Inl TypeError"
| "assign (Bool b) k x = Inl TypeError"
| "assign (Number n) k x = Inl TypeError"
| "assign (Str s) k x = Inl TypeError"

text \<open>
  Polymer's \<open>this.set('root.k', x)\<close>, given the value of \<open>this.root\<close>: nothing happens
  when that value is falsy, otherwise \<open>k\<close> is assigned on it.
\<close>

definition polymer_set :: "jsval \<Rightarrow> string \<Rightarrow> jsval \<Rightarrow> error + jsval" where
  "polymer_set root k x = (if truthy root then assign root k x else Inr root)"

text \<open>Sequencing of computations that may throw.\<close>

definition and_then :: "error + 'a \<Rightarrow> ('a \<Rightarrow> error + 'b) \<Rightarrow> error + 'b" where
  "and_then r f = (case r of Inl e \<Rightarrow> Inl e | Inr x \<Rightarrow> f x)"

text \<open>\<open>Array.prototype.map\<close> with a callback that may throw: in order, stopping at the first throw.\<close>

fun map_all :: "('a \<Rightarrow> error + 'b) \<Rightarrow> 'a list \<Rightarrow> error + 'b list" where
  "map_all f [] = Inr []"
| "map_all f (x # xs) = and_then (f x) (\<lambda>y. and_then (map_all f xs) (\<lambda>ys. Inr (y # ys)))"

text \<open>The text of a wrapped field, \<open>v.k.$t\<close>.\<close>

definition text_at :: "jsval \<Rightarrow> string \<Rightarrow> error + jsval" where
  "text_at v k = and_then (get v k) (\<lambda>x. get x ''$t'')"

text \<open>
  The callback \<^verbatim>\<open>function(a) { return {email: a.email.$t, name: a.name.$t}; }\<close> and the
  expression \<^verbatim>\<open>x.author && x.author.map(...)\<close>, which the source writes out three times
  (for the sheet, the tab and the row feed).  A truthy \<open>author\<close> that is not an array has
  no \<open>map\<close> to call.
\<close>

definition author_pair :: "jsval \<Rightarrow> error + jsval" where
  "author_pair a =
     and_then (text_at a ''email'') (\<lambda>email.
     and_then (text_at a ''name'') (\<lambda>name.
     Inr (Obj [(''email'', email), (''name'', name)])))"

definition authors_of :: "jsval \<Rightarrow> error + jsval" where
  "authors_of x =
     and_then (get x ''author'') (\<lambda>a.
       if \<not> truthy a then Inr a
       else (case a of
               Arr xs ps \<Rightarrow> and_then (map_all author_pair xs) (\<lambda>ys. Inr (Arr ys []))
             | _ \<Rightarrow> Inl TypeError))"

text \<open>\<^verbatim>\<open>v.split('/').slice(-1)[0]\<close>: only a string has \<open>split\<close>.\<close>

definition last_segment :: "jsval \<Rightarrow> error + string" where
  "last_segment v =
     (case v of
        Str x \<Rightarrow> Inr (rev (takeWhile (\<lambda>c. c \<noteq> CHR ''/'') (rev x)))
      | _ \<Rightarrow> Inl TypeError)"

text \<open>
  \<^verbatim>\<open>h.indexOf(key) != -1\<close>: on a string, whether \<open>key\<close> occurs in it; on an array, whether
  it is an element; nothing else has \<open>indexOf\<close>.
\<close>

fun occurs_in :: "string \<Rightarrow> string \<Rightarrow> bool" where
  "occurs_in k [] = (k = [])"
| "occurs_in k (c # cs) = (take (length k) (c # cs) = k \<or> occurs_in k cs)"

definition has_key :: "jsval \<Rightarrow> string \<Rightarrow> error + bool" where
  "has_key h k =
     (case h of
        Str x \<Rightarrow> Inr (occurs_in k x)
      | Arr xs ps \<Rightarrow> Inr (Str k \<in> set xs)
      | _ \<Rightarrow> Inl TypeError)"

section \<open>The element\<close>

text \<open>
  The four \<open>iron-ajax\<close> children, each with the URL and the headers last assigned to it;
  a request that \<open>generateRequest\<close> sends is recorded with both.
\<close>

datatype ajax_id = Publicajax | Listsheetsajax | Worksheetajax | Cellrowsajax

record ajax_el =
  url :: string
  headers :: "(string \<times> string) list"

record request =
  target :: ajax_id
  req_url :: string
  req_headers :: "(string \<times> string) list"

text \<open>
  The state: the properties of the element, its private \<open>_worksheetId\<close> (\<open>None\<close> for
  \<open>null\<close>), its four children, the module variable \<open>rowDataCache_\<close> that all instances
  share, and what the element has sent out so far, most recent first: the requests
  generated and the details of the \<open>google-sheet-data\<close> events fired.
\<close>

record widget =
  clientId :: string
  key :: string
  tabId :: int
  published :: bool
  sheet :: jsval
  tab :: jsval
  rows :: jsval
  spreadsheets :: jsval
  worksheetId :: "string option"
  publicajax :: ajax_el
  listsheetsajax :: ajax_el
  worksheetajax :: ajax_el
  cellrowsajax :: ajax_el
  rowDataCache :: "string \<rightharpoonup> jsval"
  requests :: "request list"
  fired :: "jsval list"

text \<open>The element as created: the default values of the \<open>properties\<close> block.\<close>

definition init :: widget where
  "init =
     \<lparr>clientId = [], key = [], tabId = 1, published = False,
      sheet = Obj [], tab = Obj [], rows = Arr [] [], spreadsheets = Arr [] [],
      worksheetId = None,
      publicajax = \<lparr>url = [], headers = []\<rparr>,
      listsheetsajax = \<lparr>url = [], headers = []\<rparr>,
      worksheetajax = \<lparr>url = [], headers = []\<rparr>,
      cellrowsajax = \<lparr>url = [], headers = []\<rparr>,
      rowDataCache = Map.empty, requests = [], fired = []\<rparr>"

text \<open>
  A method ends normally or throws; what it did to the state before throwing stays done.
\<close>

datatype result = Done widget | Threw error widget

fun state_of :: "result \<Rightarrow> widget" where
  "state_of (Done s) = s"
| "state_of (Threw e s) = s"

definition attempt :: "error + 'a \<Rightarrow> widget \<Rightarrow> ('a \<Rightarrow> result) \<Rightarrow> result" where
  "attempt r s f = (case r of Inl e \<Rightarrow> Threw e s | Inr x \<Rightarrow> f x)"

text \<open>What a method does after a call that returned.\<close>

fun next_do :: "result \<Rightarrow> (widget \<Rightarrow> result) \<Rightarrow> result" where
  "next_do (Done s) k = k s"
| "next_do (Threw e s) k = Threw e s"

text \<open>
  A change that shows in the state however a call ended (used where an object is
  reachable through two properties, so that a write through one shows at the other).
\<close>

fun and_sync :: "result \<Rightarrow> (widget \<Rightarrow> widget) \<Rightarrow> result" where
  "and_sync (Done s) f = Done (f s)"
| "and_sync (Threw e s) f = Threw e (f s)"

definition SCOPE :: string where
  "SCOPE = ''https://spreadsheets.google.com/feeds''"

fun child :: "ajax_id \<Rightarrow> widget \<Rightarrow> ajax_el" where
  "child Publicajax s = publicajax s"
| "child Listsheetsajax s = listsheetsajax s"
| "child Worksheetajax s = worksheetajax s"
| "child Cellrowsajax s = cellrowsajax s"

definition generateRequest :: "ajax_id \<Rightarrow> widget \<Rightarrow> widget" where
  "generateRequest a s =
     s\<lparr>requests :=
         \<lparr>target = a, req_url = url (child a s), req_headers = headers (child a s)\<rparr> # requests s\<rparr>"

text \<open>\<^verbatim>\<open>this.fire('google-sheet-data', {type: ty, data: d})\<close>.\<close>

definition fire :: "string \<Rightarrow> jsval \<Rightarrow> widget \<Rightarrow> widget" where
  "fire ty d s = s\<lparr>fired := Obj [(''type'', Str ty), (''data'', d)] # fired s\<rparr>"

text \<open>
  \<^verbatim>\<open>function generateCacheKey_() { return this._worksheetId + '_'+ this.tabId; }\<close>
  A \<open>null\<close> worksheet id concatenates as \<open>null\<close>.
\<close>

definition id_string :: "string option \<Rightarrow> string" where
  "id_string w = (case w of None \<Rightarrow> ''null'' | Some x \<Rightarrow> x)"

definition generateCacheKey :: "widget \<Rightarrow> string" where
  "generateCacheKey s = id_string (worksheetId s) @ ''_'' @ string_of_int (tabId s)"

text \<open>\<open>if (this._worksheetId)\<close>: neither \<open>null\<close> nor the empty string.\<close>

definition has_id :: "string option \<Rightarrow> bool" where
  "has_id w = (case w of None \<Rightarrow> False | Some x \<Rightarrow> x \<noteq> [])"

subsection \<open>\<open>getLink_\<close>\<close>

text \<open>
  An index beyond which \<open>v[i]\<close> is \<open>undefined\<close>; it bounds the two loops of the source
  that run until \<open>v[i]\<close> is falsy.
\<close>

fun index_bound :: "jsval \<Rightarrow> nat" where
  "index_bound (Arr xs ps) = length xs"
| "index_bound (Str s) = length s"
| "index_bound (Obj fs) = Suc (sum_list (map (\<lambda>p. digits_value 10 (fst p)) fs))"
| "index_bound v = 0"

lemma digit_val_digit_char: "d < 36 \<Longrightarrow> digit_val (digit_char d) = Some d"
  by (auto simp: digit_val_def digit_char_def Let_def)

lemma digits_value_snoc:
  "digits_value r (ds @ [c]) = digits_value r ds * r + the (digit_val c)"
  by (simp add: digits_value_def)

lemma digits_value_to_digits:
  "2 \<le> r \<Longrightarrow> r \<le> 36 \<Longrightarrow> digits_value r (to_digits r n) = n"
proof (induction r n rule: to_digits.induct)
  case (1 r n)
  show ?case
  proof (cases "n < r")
    case True
    with 1(2,3) show ?thesis
      by (simp add: to_digits.simps [of r n] digits_value_def digit_val_digit_char)
  next
    case False
    with 1 have "digits_value r (to_digits r (n div r)) = n div r" by simp
    moreover have "n mod r < r" using 1(2) by simp
    then have "n mod r < 36" using 1(3) by linarith
    ultimately show ?thesis using False 1(2)
      by (simp add: to_digits.simps [of r n] digits_value_snoc digit_val_digit_char)
  qed
qed

lemma field_in_set: "field fs k \<noteq> Undefined \<Longrightarrow> (k, field fs k) \<in> set fs"
  by (auto simp: field_def split: option.splits dest: map_of_SomeD)

lemma sum_list_member_le:
  "x \<in> set xs \<Longrightarrow> f x \<le> sum_list (map f xs)" for f :: "'a \<Rightarrow> nat"
  by (induction xs) auto

lemma index_below_bound:
  assumes "index v i = Inr x" and "truthy x"
  shows "i < index_bound v"
proof (cases v)
  case (Obj fs)
  have x: "x = field fs (string_of_int (int i))" using assms(1) Obj by simp
  then have "x \<noteq> Undefined" using assms(2) by auto
  then have "(string_of_int (int i), x) \<in> set fs" using x field_in_set by metis
  then have "digits_value 10 (fst (string_of_int (int i), x))
      \<le> sum_list (map (\<lambda>p. digits_value 10 (fst p)) fs)"
    by (rule sum_list_member_le)
  moreover have "digits_value 10 (string_of_int (int i)) = i"
    by (simp add: string_of_int_def digits_value_to_digits)
  ultimately show ?thesis using Obj by simp
qed (use assms in \<open>auto split: if_splits\<close>)

text \<open>
  \<^verbatim>\<open>
  function getLink_(rel, links) {
    for (var i = 0, link; link = links[i]; ++i) {
      if (link.rel === rel) { return link; }
    }
    return null;
  }\<close>
  The loop from index \<open>i\<close> on.
\<close>

function getLink_from :: "string \<Rightarrow> jsval \<Rightarrow> nat \<Rightarrow> error + jsval" where
  "getLink_from rel links i =
     (case index links i of
        Inl e \<Rightarrow> Inl e
      | Inr link \<Rightarrow>
          if \<not> truthy link then Inr Null
          else (case get link ''rel'' of
                  Inl e \<Rightarrow> Inl e
                | Inr r \<Rightarrow> if r = Str rel then Inr link else getLink_from rel links (Suc i)))"
  by pat_completeness auto
termination
proof (relation "measure (\<lambda>(rel, links, i). index_bound links - i)")
  fix rel :: string and links :: jsval and i :: nat and link r :: jsval
  assume "index links i = Inr link" and "\<not> \<not> truthy link"
  then have "i < index_bound links" using index_below_bound by simp
  then show "((rel, links, Suc i), rel, links, i) \<in> measure (\<lambda>(rel, links, i). index_bound links - i)"
    by simp
qed simp

declare getLink_from.simps [simp del]

definition getLink :: "string \<Rightarrow> jsval \<Rightarrow> error + jsval" where
  "getLink rel links = getLink_from rel links 0"

subsection \<open>Observers of the configuration\<close>

text \<open>
  \<^verbatim>\<open>
  _keyChanged: function(newValue, oldValue) {
    if (this.published) {
      var url = SCOPE_ + '/list/' + this.key + '/' + this.tabId + '/public/values';
      this.$.publicajax.url = url;
      this.$.publicajax.generateRequest();
    }
  }\<close>
\<close>

definition keyChanged :: "widget \<Rightarrow> result" where
  "keyChanged s =
     (if published s then
        Done (generateRequest Publicajax
          (s\<lparr>publicajax := (publicajax s)
              \<lparr>url := SCOPE @ ''/list/'' @ key s @ ''/'' @ string_of_int (tabId s) @ ''/public/values''\<rparr>\<rparr>))
      else Done s)"

subsection \<open>The tab\<close>

text \<open>
  \<^verbatim>\<open>
  _tabChanged: function(newValue, oldValue) {
    if (!this.tab.title) { return; }
    var authors = this.tab.authors = this.tab.author && this.tab.author.map(...);
    this.set('tab.title', this.tab.title.$t);
    this.set('tab.updated', new Date(this.tab.updated.$t));
    this.set('tab.authors', authors);
    this.fire('google-sheet-data', {type: 'tab', data: this.tab});
  }\<close>
\<close>

definition tabChanged :: "widget \<Rightarrow> result" where
  "tabChanged s =
     attempt (get (tab s) ''title'') s (\<lambda>t.
     if \<not> truthy t then Done s
     else
       attempt (authors_of (tab s)) s (\<lambda>authors.
       attempt (assign (tab s) ''authors'' authors) s (\<lambda>tab1.
       let s1 = s\<lparr>tab := tab1\<rparr> in
       attempt (text_at (tab s1) ''title'') s1 (\<lambda>title.
       attempt (polymer_set (tab s1) ''title'' title) s1 (\<lambda>tab2.
       let s2 = s1\<lparr>tab := tab2\<rparr> in
       attempt (text_at (tab s2) ''updated'') s2 (\<lambda>updated.
       attempt (polymer_set (tab s2) ''updated'' (Date updated)) s2 (\<lambda>tab3.
       let s3 = s2\<lparr>tab := tab3\<rparr> in
       attempt (polymer_set (tab s3) ''authors'' authors) s3 (\<lambda>tab4.
       let s4 = s3\<lparr>tab := tab4\<rparr> in
       Done (fire ''tab'' (tab s4) s4)))))))))"

text \<open>
  The setter \<open>_setTab\<close> of the read-only property: Polymer stores the value and runs the
  observer of the property at once.
\<close>

definition setTab :: "jsval \<Rightarrow> widget \<Rightarrow> result" where
  "setTab v s = tabChanged (s\<lparr>tab := v\<rparr>)"

subsection \<open>The rows and their cache\<close>

text \<open>The cache entry \<^verbatim>\<open>{response: {feed: feed}}\<close>.\<close>

definition cache_entry :: "jsval \<Rightarrow> jsval" where
  "cache_entry feed = Obj [(''response'', Obj [(''feed'', feed)])]"

text \<open>
  The entry holds the feed object itself, not a copy: what the method goes on to write
  into that object (the authors on its array of rows, and, for a published sheet, the
  fields of the tab, which is the same object) shows in the entry it has just stored.
  \<open>recache\<close> carries such a write over to that entry.
\<close>

definition recache :: "bool \<Rightarrow> string \<Rightarrow> jsval \<Rightarrow> widget \<Rightarrow> widget" where
  "recache stored k feed s =
     (if stored then s\<lparr>rowDataCache := (rowDataCache s)(k \<mapsto> cache_entry feed)\<rparr> else s)"

text \<open>An object with one property replaced by its value after a write through an alias.\<close>

fun with_field :: "jsval \<Rightarrow> string \<Rightarrow> jsval \<Rightarrow> jsval" where
  "with_field (Obj fs) k x = Obj (AList.update k x fs)"
| "with_field (Arr xs ps) k x = Arr xs (AList.update k x ps)"
| "with_field v k x = v"

text \<open>
  \<^verbatim>\<open>
  _onCellRows: function(e) {
    e.stopPropagation();
    var feed = e.target.lastResponse.feed;
    // Cache data if key doesn't exist.
    var key = generateCacheKey_.call(this);
    if (!(key in rowDataCache_)) {
      rowDataCache_[key] = {response: {feed: feed}};
    }
    this._setRows(feed.entry);
    var authors = feed.author && feed.author.map(...);
    this.set('rows.authors', authors);
    if (this.published) { this._setTab(feed); }
    this.fire('google-sheet-data', {type: 'rows', data: this.rows});
  }\<close>
  The argument is the event: \<open>Some r\<close> for a response event of a child whose
  \<open>lastResponse\<close> is \<open>r\<close>, \<open>None\<close> for \<open>null\<close>.
\<close>

definition onCellRows :: "jsval option \<Rightarrow> widget \<Rightarrow> result" where
  "onCellRows e s =
     (case e of
        None \<Rightarrow> Threw TypeError s
      | Some r \<Rightarrow>
          attempt (get r ''feed'') s (\<lambda>feed.
          let k = generateCacheKey s;
              stored = (rowDataCache s k = None);
              s1 = recache stored k feed s in
          attempt (get feed ''entry'') s1 (\<lambda>entry.
          let s2 = s1\<lparr>rows := entry\<rparr> in
          attempt (authors_of feed) s2 (\<lambda>authors.
          attempt (polymer_set (rows s2) ''authors'' authors) s2 (\<lambda>rows1.
          let feed1 = (if truthy entry then with_field feed ''entry'' rows1 else feed);
              s3 = recache stored k feed1 (s2\<lparr>rows := rows1\<rparr>) in
          if published s3 then
            next_do (and_sync (setTab feed1 s3) (\<lambda>s4. recache stored k (tab s4) s4))
              (\<lambda>s5. Done (fire ''rows'' (rows s5) s5))
          else Done (fire ''rows'' (rows s3) s3))))))"

text \<open>
  \<^verbatim>\<open>
  _getCellRows: function() {
    // Use cached data if available.
    var key = generateCacheKey_.call(this);
    if (key in rowDataCache_) {
      this._onCellRows(null, null, rowDataCache_[key]);
      return;
    }
    var url = SCOPE_ + '/list/' + this._worksheetId + '/' + this.tabId + '/private/full';
    this.$.cellrowsajax.url = url;
    this.$.cellrowsajax.generateRequest();
  }\<close>
  \<open>_onCellRows\<close> has one parameter, so the entry passed third is dropped and the event it
  gets is \<open>null\<close>.
\<close>

definition getCellRows :: "widget \<Rightarrow> result" where
  "getCellRows s =
     (case rowDataCache s (generateCacheKey s) of
        Some entry \<Rightarrow> onCellRows None s
      | None \<Rightarrow>
          Done (generateRequest Cellrowsajax
            (s\<lparr>cellrowsajax := (cellrowsajax s)
                \<lparr>url := SCOPE @ ''/list/'' @ id_string (worksheetId s) @ ''/''
                          @ string_of_int (tabId s) @ ''/private/full''\<rparr>\<rparr>)))"

text \<open>
  \<^verbatim>\<open>
  _tabIdChanged: function(newValue, oldValue) {
    if (this._worksheetId) { this._getCellRows(); }
    else if (this.published) { this._keyChanged(); }
  }
  _configUpdate: function(key, published, tabId, clientId) { this._tabIdChanged(); }\<close>
\<close>

definition tabIdChanged :: "widget \<Rightarrow> result" where
  "tabIdChanged s =
     (if has_id (worksheetId s) then getCellRows s
      else if published s then keyChanged s
      else Done s)"

definition configUpdate :: "widget \<Rightarrow> result" where
  "configUpdate s = tabIdChanged s"

subsection \<open>The sheet and the worksheet\<close>

text \<open>
  \<^verbatim>\<open>
  _getWorksheet: function() {
    if (!this._worksheetId) { throw new Error('workesheetId was not given.'); }
    var url = SCOPE_ + '/worksheets/' + this._worksheetId + '/private/full/' + this.tabId;
    this.$.worksheetajax.url = url;
    this.$.worksheetajax.generateRequest();
  }\<close>
\<close>

definition getWorksheet :: "widget \<Rightarrow> result" where
  "getWorksheet s =
     (if \<not> has_id (worksheetId s) then Threw (Error ''workesheetId was not given.'') s
      else
        Done (generateRequest Worksheetajax
          (s\<lparr>worksheetajax := (worksheetajax s)
              \<lparr>url := SCOPE @ ''/worksheets/'' @ id_string (worksheetId s) @ ''/private/full/''
                        @ string_of_int (tabId s)\<rparr>\<rparr>)))"

text \<open>
  \<^verbatim>\<open>
  _sheetChanged: function(newValue, oldValue) {
    if (!this.sheet.title) { return; }
    // Make metadata easily accessible on sheet object.
    var authors = this.sheet.author && this.sheet.author.map(...);
    this.set('sheet.title', this.sheet.title.$t);
    this.set('sheet.updated', new Date(this.sheet.updated.$t));
    this.set('sheet.authors', authors);
    this._worksheetId = this.sheet.id.$t.split('/').slice(-1)[0];
    this._getWorksheet();
  }\<close>
\<close>

definition sheetChanged :: "widget \<Rightarrow> result" where
  "sheetChanged s =
     attempt (get (sheet s) ''title'') s (\<lambda>t.
     if \<not> truthy t then Done s
     else
       attempt (authors_of (sheet s)) s (\<lambda>authors.
       attempt (text_at (sheet s) ''title'') s (\<lambda>title.
       attempt (polymer_set (sheet s) ''title'' title) s (\<lambda>sheet1.
       let s1 = s\<lparr>sheet := sheet1\<rparr> in
       attempt (text_at (sheet s1) ''updated'') s1 (\<lambda>updated.
       attempt (polymer_set (sheet s1) ''updated'' (Date updated)) s1 (\<lambda>sheet2.
       let s2 = s1\<lparr>sheet := sheet2\<rparr> in
       attempt (polymer_set (sheet s2) ''authors'' authors) s2 (\<lambda>sheet3.
       let s3 = s2\<lparr>sheet := sheet3\<rparr> in
       attempt (and_then (text_at (sheet s3) ''id'') last_segment) s3 (\<lambda>w.
       getWorksheet (s3\<lparr>worksheetId := Some w\<rparr>)))))))))"

definition setSheet :: "jsval \<Rightarrow> widget \<Rightarrow> result" where
  "setSheet v s = sheetChanged (s\<lparr>sheet := v\<rparr>)"

text \<open>
  \<^verbatim>\<open>
  _onWorksheet: function(e) {
    e.stopPropagation();
    this._setTab(e.target.lastResponse.entry);
    this._getCellRows();
  }\<close>
\<close>

definition onWorksheet :: "jsval \<Rightarrow> widget \<Rightarrow> result" where
  "onWorksheet r s =
     attempt (get r ''entry'') s (\<lambda>entry. next_do (setTab entry s) getCellRows)"

subsection \<open>Signing in and the list of spreadsheets\<close>

text \<open>
  \<^verbatim>\<open>
  _listSpreadsheets: function() {
    var url = SCOPE_ + '/spreadsheets/private/full';
    this.$.listsheetsajax.url = url;
    this.$.listsheetsajax.generateRequest();
  }\<close>
\<close>

definition listSpreadsheets :: "widget \<Rightarrow> result" where
  "listSpreadsheets s =
     Done (generateRequest Listsheetsajax
       (s\<lparr>listsheetsajax := (listsheetsajax s)\<lparr>url := SCOPE @ ''/spreadsheets/private/full''\<rparr>\<rparr>))"

text \<open>
  \<^verbatim>\<open>
  _onSignInSuccess: function(e, detail) {
    var oauthToken = gapi.auth2.getAuthInstance().currentUser.get().getAuthResponse();
    var headers = {'Authorization': 'Bearer ' + oauthToken.access_token};
    this.$.listsheetsajax.headers = headers;
    this.$.worksheetajax.headers = headers;
    this.$.cellrowsajax.headers = headers;
    this._listSpreadsheets();
  }\<close>
  The access token is what the sign-in library hands over.
\<close>

definition bearer :: "string \<Rightarrow> (string \<times> string) list" where
  "bearer token = [(''Authorization'', ''Bearer '' @ token)]"

definition onSignInSuccess :: "string \<Rightarrow> widget \<Rightarrow> result" where
  "onSignInSuccess token s =
     listSpreadsheets
       (s\<lparr>listsheetsajax := (listsheetsajax s)\<lparr>headers := bearer token\<rparr>,
          worksheetajax := (worksheetajax s)\<lparr>headers := bearer token\<rparr>,
          cellrowsajax := (cellrowsajax s)\<lparr>headers := bearer token\<rparr>\<rparr>)"

text \<open>\<open>_onSignInFail\<close> logs to the console and does nothing else.\<close>

definition onSignInFail :: "widget \<Rightarrow> result" where
  "onSignInFail s = Done s"

text \<open>
  The loop of \<open>_onSpreadsheetList\<close>, from index \<open>i\<close> on, up to the entry it adopts:
  \<^verbatim>\<open>
  for (var i = 0, entry; entry = feed.entry[i]; ++i) {
    var altLink = getLink_('alternate', entry.link);
    if (altLink && altLink.href.indexOf(this.key) != -1) {
      this._setSheet(entry);
      break;
    }
  }\<close>
  The result is the index and the entry that \<open>_setSheet\<close> is called with, if any.
\<close>

function find_sheet :: "string \<Rightarrow> jsval \<Rightarrow> nat \<Rightarrow> error + (nat \<times> jsval) option" where
  "find_sheet k entries i =
     (case index entries i of
        Inl e \<Rightarrow> Inl e
      | Inr entry \<Rightarrow>
          if \<not> truthy entry then Inr None
          else (case and_then (get entry ''link'') (getLink ''alternate'') of
                  Inl e \<Rightarrow> Inl e
                | Inr altLink \<Rightarrow>
                    if \<not> truthy altLink then find_sheet k entries (Suc i)
                    else (case and_then (get altLink ''href'') (\<lambda>h. has_key h k) of
                            Inl e \<Rightarrow> Inl e
                          | Inr found \<Rightarrow>
                              if found then Inr (Some (i, entry))
                              else find_sheet k entries (Suc i))))"
  by pat_completeness auto
termination
proof (relation "measure (\<lambda>(k, entries, i). index_bound entries - i)")
  fix k :: string and entries :: jsval and i :: nat and entry :: jsval
  assume "index entries i = Inr entry" and "\<not> \<not> truthy entry"
  then have "i < index_bound entries" using index_below_bound by simp
  then show "((k, entries, Suc i), k, entries, i) \<in> measure (\<lambda>(k, entries, i). index_bound entries - i)"
    by simp
  then show "((k, entries, Suc i), k, entries, i) \<in> measure (\<lambda>(k, entries, i). index_bound entries - i)" .
qed simp

declare find_sheet.simps [simp del]

text \<open>
  The sheet adopted is an element of the list of spreadsheets, the same object: what
  \<open>_sheetChanged\<close> writes into it shows at its index of \<open>spreadsheets\<close> too.
\<close>

fun with_index :: "jsval \<Rightarrow> nat \<Rightarrow> jsval \<Rightarrow> jsval" where
  "with_index (Arr xs ps) i x = Arr (xs[i := x]) ps"
| "with_index (Obj fs) i x = Obj (AList.update (string_of_int (int i)) x fs)"
| "with_index v i x = v"

definition share_sheet :: "nat \<Rightarrow> widget \<Rightarrow> widget" where
  "share_sheet i s = s\<lparr>spreadsheets := with_index (spreadsheets s) i (sheet s)\<rparr>"

text \<open>
  \<^verbatim>\<open>
  _onSpreadsheetList: function(e) {
    e.stopPropagation();
    var feed = e.target.lastResponse.feed;
    this._setSpreadsheets(feed.entry);
    this.fire('google-sheet-data', {type: 'spreadsheets', data: this.spreadsheets});
    // Fetch worksheet feed if key was given and worksheet exists.
    if (this.key) { (the loop above) }
  }\<close>
\<close>

definition onSpreadsheetList :: "jsval \<Rightarrow> widget \<Rightarrow> result" where
  "onSpreadsheetList r s =
     attempt (get r ''feed'') s (\<lambda>feed.
     attempt (get feed ''entry'') s (\<lambda>entries.
     let s1 = s\<lparr>spreadsheets := entries\<rparr>;
         s2 = fire ''spreadsheets'' (spreadsheets s1) s1 in
     if key s2 = [] then Done s2
     else
       attempt (find_sheet (key s2) entries 0) s2 (\<lambda>found.
         case found of
           None \<Rightarrow> Done s2
         | Some (i, entry) \<Rightarrow>
             and_sync (setSheet entry s2) (share_sheet i))))"

section \<open>What happens to the element\<close>

text \<open>
  The element is driven from outside: a configuration property is assigned a value, the
  sign-in child reports success or failure, or a child \<open>iron-ajax\<close> reports the response to
  a request.  On an assignment Polymer compares the value with the one the property has:
  when they are the same nothing is stored and no observer runs; otherwise the value is
  stored and the observer of the property runs.
\<close>

datatype event =
    KeySet string
  | TabIdSet int
  | PublishedSet bool
  | ClientIdSet string
  | SignInSuccess string
  | SignInFail
  | Response ajax_id jsval

fun handle :: "event \<Rightarrow> widget \<Rightarrow> result" where
  "handle (KeySet k) s = (if k = key s then Done s else keyChanged (s\<lparr>key := k\<rparr>))"
| "handle (TabIdSet t) s = (if t = tabId s then Done s else configUpdate (s\<lparr>tabId := t\<rparr>))"
| "handle (PublishedSet b) s = (if b = published s then Done s else configUpdate (s\<lparr>published := b\<rparr>))"
| "handle (ClientIdSet c) s = (if c = clientId s then Done s else configUpdate (s\<lparr>clientId := c\<rparr>))"
| "handle (SignInSuccess token) s = onSignInSuccess token s"
| "handle SignInFail s = onSignInFail s"
| "handle (Response Publicajax r) s = onCellRows (Some r) s"
| "handle (Response Cellrowsajax r) s = onCellRows (Some r) s"
| "handle (Response Listsheetsajax r) s = onSpreadsheetList r s"
| "handle (Response Worksheetajax r) s = onWorksheet r s"

text \<open>A child reports a response only to a request that it has sent.\<close>

fun possible :: "widget \<Rightarrow> event \<Rightarrow> bool" where
  "possible s (Response a r) = (a \<in> target ` set (requests s))"
| "possible s ev = True"

text \<open>
  A run of events from a state; an exception ends the method that throws it and leaves
  the element as it is then.  \<open>None\<close> when an event of the list is not possible.
\<close>

fun run :: "widget \<Rightarrow> event list \<Rightarrow> widget option" where
  "run s [] = Some s"
| "run s (ev # evs) = (if possible s ev then run (state_of (handle ev s)) evs else None)"

text \<open>
  The order of the private flow on the requests sent (most recent first): none goes to
  the public child, a worksheet request comes after a request for the list of
  spreadsheets, and a request for rows after a worksheet request.
\<close>

fun in_order :: "request list \<Rightarrow> bool" where
  "in_order [] = True"
| "in_order (q # qs) =
     ((case target q of
         Publicajax \<Rightarrow> False
       | Listsheetsajax \<Rightarrow> True
       | Worksheetajax \<Rightarrow> Listsheetsajax \<in> target ` set qs
       | Cellrowsajax \<Rightarrow> Worksheetajax \<in> target ` set qs)
      \<and> in_order qs)"

fun is_sign_in :: "event \<Rightarrow> bool" where
  "is_sign_in (SignInSuccess token) = True"
| "is_sign_in ev = False"

fun sets_published :: "event \<Rightarrow> bool" where
  "sets_published (PublishedSet b) = True"
| "sets_published ev = False"

section \<open>Notions the claims are stated with\<close>

text \<open>Letters and digits: what a worksheet id is made of.\<close>

definition is_alnum :: "char \<Rightarrow> bool" where
  "is_alnum c =
     (let n = (of_char c :: nat) in
      (48 \<le> n \<and> n \<le> 57) \<or> (65 \<le> n \<and> n \<le> 90) \<or> (97 \<le> n \<and> n \<le> 122))"

text \<open>
  An author as the API sends it, with wrapped e-mail address and name, and as the
  element republishes it, a plain pair.
\<close>

definition api_author :: "jsval \<Rightarrow> string \<times> string \<Rightarrow> bool" where
  "api_author a p \<longleftrightarrow>
     text_at a ''email'' = Inr (Str (fst p)) \<and> text_at a ''name'' = Inr (Str (snd p))"

fun author_list :: "jsval \<Rightarrow> (string \<times> string) list \<Rightarrow> bool" where
  "author_list (Arr as xs) ps = list_all2 api_author as ps"
| "author_list v ps = False"

definition plain_author :: "string \<times> string \<Rightarrow> jsval" where
  "plain_author p = Obj [(''email'', Str (fst p)), (''name'', Str (snd p))]"

text \<open>
  A sheet, tab or feed as the API sends it: title and time stamp wrapped, and the list
  of its authors.
\<close>

definition wrapped_fields :: "jsval \<Rightarrow> string \<Rightarrow> string \<Rightarrow> (string \<times> string) list \<Rightarrow> bool" where
  "wrapped_fields v title updated authors \<longleftrightarrow>
     text_at v ''title'' = Inr (Str title) \<and>
     text_at v ''updated'' = Inr (Str updated) \<and>
     (case get v ''author'' of Inr a \<Rightarrow> author_list a authors | Inl e \<Rightarrow> False)"

text \<open>
  The same after projection: the title a plain string, \<open>updated\<close> the date made from the
  time stamp, \<open>authors\<close> the plain pairs in the order of the input.
\<close>

definition projected :: "jsval \<Rightarrow> string \<Rightarrow> string \<Rightarrow> (string \<times> string) list \<Rightarrow> bool" where
  "projected v title updated authors \<longleftrightarrow>
     get v ''title'' = Inr (Str title) \<and>
     get v ''updated'' = Inr (Date (Str updated)) \<and>
     get v ''authors'' = Inr (Arr (map plain_author authors) [])"

text \<open>The rows of a feed: an array, or absent when the sheet is empty.\<close>

fun is_rows :: "jsval \<Rightarrow> bool" where
  "is_rows (Arr xs ps) = True"
| "is_rows Undefined = True"
| "is_rows v = False"

subsection \<open>Sample responses\<close>

definition wrapped :: "string \<Rightarrow> jsval" where
  "wrapped x = Obj [(''$t'', Str x)]"

definition sample_author :: jsval where
  "sample_author = Obj [(''name'', wrapped ''Ann''), (''email'', wrapped ''ann@x.org'')]"

definition sample_sheet :: jsval where
  "sample_sheet =
     Obj [(''id'', wrapped ''https://spreadsheets.google.com/feeds/spreadsheets/private/full/od6''),
          (''updated'', wrapped ''2015-03-01T10:00:00.000Z''),
          (''title'', wrapped ''Budget''),
          (''author'', Arr [sample_author] []),
          (''link'', Arr [Obj [(''rel'', Str ''self''), (''href'', Str ''https://x/self'')],
                          Obj [(''rel'', Str ''alternate''), (''href'', Str ''https://docs/ccc?key=K1'')]] [])]"

definition sample_list :: jsval where
  "sample_list = Obj [(''feed'', Obj [(''entry'', Arr [sample_sheet] [])])]"

definition sample_tab :: jsval where
  "sample_tab =
     Obj [(''title'', wrapped ''Sheet1''), (''updated'', wrapped ''2015-03-02T10:00:00.000Z''),
          (''author'', Arr [sample_author] [])]"

definition sample_worksheet :: jsval where
  "sample_worksheet = Obj [(''entry'', sample_tab)]"

definition sample_feed :: jsval where
  "sample_feed =
     Obj [(''title'', wrapped ''Sheet1''), (''updated'', wrapped ''2015-03-02T10:00:00.000Z''),
          (''author'', Arr [sample_author] []),
          (''entry'', Arr [Obj [(''gsx$lat'', wrapped ''1'')]] [])]"

definition sample_rows :: jsval where
  "sample_rows = Obj [(''feed'', sample_feed)]"

definition sample_events :: "event list" where
  "sample_events =
     [KeySet ''K1'', SignInSuccess ''tok'', Response Listsheetsajax sample_list,
      Response Worksheetajax sample_worksheet, Response Cellrowsajax sample_rows]"

text \<open>The same run, followed by a change of the tab and the response to its request.\<close>

definition second_fetch :: "event list" where
  "second_fetch = sample_events @ [TabIdSet 2, Response Cellrowsajax sample_rows]"

section \<open>Properties of the codec\<close>

lemma is_digit_digit_char: "d < r \<Longrightarrow> r \<le> 36 \<Longrightarrow> is_digit r (digit_char d)"
  by (simp add: is_digit_def digit_val_digit_char)

lemma to_digits_not_Nil: "to_digits r n \<noteq> []"
  by (subst to_digits.simps) simp

lemma to_digits_all_digits:
  "2 \<le> r \<Longrightarrow> r \<le> 36 \<Longrightarrow> c \<in> set (to_digits r n) \<Longrightarrow> is_digit r c"
proof (induction r n rule: to_digits.induct)
  case (1 r n)
  show ?case
  proof (cases "n < r")
    case True
    with 1(2,3,4) show ?thesis
      by (simp add: to_digits.simps [of r n] is_digit_digit_char)
  next
    case False
    with 1 show ?thesis
      by (auto simp: to_digits.simps [of r n] is_digit_digit_char)
  qed
qed

lemma is_digit_plain:
  "is_digit r c \<Longrightarrow> \<not> is_ws c \<and> c \<noteq> CHR ''+'' \<and> c \<noteq> CHR ''-''"
  by (auto simp: is_digit_def digit_val_def is_ws_def Let_def split: if_splits)

lemma is_digit_10_not_x: "is_digit 10 c \<Longrightarrow> c \<noteq> CHR ''x'' \<and> c \<noteq> CHR ''X''"
  by (auto simp: is_digit_def digit_val_def Let_def split: if_splits)

lemma takeWhile_all: "\<forall>c\<in>set s. P c \<Longrightarrow> takeWhile P s = s"
  by (induction s) auto

lemma parseInt_plain:
  assumes "s \<noteq> []" and "\<forall>c\<in>set s. is_digit r c" and "2 \<le> r" and "r \<le> 36"
    and "radix = r \<and> r \<noteq> 16 \<or> radix = 0 \<and> r = 10"
  shows "parseInt s radix = number_of_nat (digits_value r s)"
    and "parseInt (CHR ''-'' # s) radix = negate (number_of_nat (digits_value r s))"
proof -
  obtain c cs where s: "s = c # cs" using assms(1) by (cases s) auto
  have c: "\<not> is_ws c" "c \<noteq> CHR ''+''" "c \<noteq> CHR ''-''"
    using assms(2) is_digit_plain [of r c] by (auto simp: s)
  have dw: "dropWhile is_ws s = s" using c by (simp add: s)
  have dw': "dropWhile is_ws (CHR ''-'' # s) = CHR ''-'' # s" by (simp add: is_ws_def)
  have hd: "hd s \<noteq> CHR ''+''" "hd s \<noteq> CHR ''-''" using c by (simp_all add: s)
  have tw: "takeWhile (is_digit r) s = s"
    using assms(2) takeWhile_all [of s "is_digit r"] by simp
  have nox: "radix = 0 \<Longrightarrow> take 2 s \<noteq> ''0x'' \<and> take 2 s \<noteq> ''0X''"
    using assms(2,3,5) is_digit_10_not_x by (cases cs; auto simp: s)
  have hex: "\<not> ((radix = 0 \<or> radix = 16) \<and> (take 2 s = ''0x'' \<or> take 2 s = ''0X''))"
    using nox assms(5) by auto
  have r0: "(if radix = 0 then 10 else radix) = r" using assms(3,5) by auto
  have rng: "\<not> (r < 2 \<or> 36 < r)" using assms(3,4) by simp
  show "parseInt s radix = number_of_nat (digits_value r s)"
    unfolding parseInt_def Let_def skip_sign_def dw r0
    using hd hex rng tw assms(1) by (simp only: if_False if_True simp_thms)
  show "parseInt (CHR ''-'' # s) radix = negate (number_of_nat (digits_value r s))"
    unfolding parseInt_def Let_def skip_sign_def dw' r0
    using hex rng tw assms(1) by (simp only: list.sel if_False if_True simp_thms list.simps)
qed

lemma parseInt_digits:
  assumes "s \<noteq> []" and "\<forall>c\<in>set s. is_digit 36 c"
  shows "parseInt s 36 = number_of_nat (digits_value 36 s)"
  using parseInt_plain(1) [OF assms, of 36] by simp

lemma parseInt_neg_digits:
  assumes "s \<noteq> []" and "\<forall>c\<in>set s. is_digit 36 c"
  shows "parseInt (CHR ''-'' # s) 36 = negate (number_of_nat (digits_value 36 s))"
  using parseInt_plain(2) [OF assms, of 36] by simp

lemma parseInt_decimal:
  assumes "s \<noteq> []" and "\<forall>c\<in>set s. is_digit 10 c"
  shows "parseInt s 0 = number_of_nat (digits_value 10 s)"
  using parseInt_plain(1) [OF assms, of 0] by simp

lemma parseInt_neg_decimal:
  assumes "s \<noteq> []" and "\<forall>c\<in>set s. is_digit 10 c"
  shows "parseInt (CHR ''-'' # s) 0 = negate (number_of_nat (digits_value 10 s))"
  using parseInt_plain(2) [OF assms, of 0] by simp

lemma number_of_nat_small: "n \<le> 2 ^ 53 \<Longrightarrow> number_of_nat n = Intg (int n)"
  by (simp add: number_of_nat_def)

lemma parseInt_string_of_int:
  assumes "\<bar>x\<bar> \<le> 2 ^ 53"
  shows "parseInt (string_of_int x) 0 = Intg x"
proof (cases "x < 0")
  case True
  have "nat (- x) \<le> 2 ^ 53" using assms by (simp add: nat_le_iff)
  then show ?thesis using True
    by (simp add: string_of_int_def parseInt_neg_decimal to_digits_not_Nil
        to_digits_all_digits digits_value_to_digits number_of_nat_small negate_def)
next
  case False
  have "nat x \<le> 2 ^ 53" using assms by (simp add: nat_le_iff)
  then show ?thesis using False
    by (simp add: string_of_int_def parseInt_decimal to_digits_not_Nil
        to_digits_all_digits digits_value_to_digits number_of_nat_small)
qed

lemma to_int32_id:
  assumes "- (2 ^ 31) \<le> n" and "n < 2 ^ 31"
  shows "to_int32 (Intg n) = n"
proof (cases "n < 0")
  case True
  have "(n + 2 ^ 32) mod 2 ^ 32 = n + 2 ^ 32"
    using assms True by (intro mod_pos_pos_trivial) simp_all
  then have "n mod 2 ^ 32 = n + 2 ^ 32" by simp
  then show ?thesis using True assms by (simp add: to_int32_def Let_def)
next
  case False
  then have "n mod 2 ^ 32 = n" using assms by (intro mod_pos_pos_trivial) simp_all
  then show ?thesis using False assms by (simp add: to_int32_def Let_def)
qed

lemma xor_key_range:
  fixes g :: int
  assumes "0 \<le> g" and "g < 2 ^ 31"
  shows "0 \<le> g XOR 31578 \<and> g XOR 31578 < 2 ^ 31"
proof -
  have "g XOR 31578 < 2 ^ 31" using assms by (intro XOR_upper) simp_all
  then show ?thesis using assms by simp
qed

lemma xor_key_twice: "((g :: int) XOR 31578) XOR 31578 = g"
  by (simp add: xor.assoc)


lemma wid_char_digit:
  assumes "is_wid_char c"
  shows "\<exists>d<36. digit_val c = Some d \<and> digit_char d = c"
proof -
  define n where "n = (of_char c :: nat)"
  have c: "char_of n = c" by (simp add: n_def)
  from assms consider "48 \<le> n \<and> n \<le> 57" | "97 \<le> n \<and> n \<le> 122"
    by (auto simp: is_wid_char_def Let_def n_def)
  then show ?thesis
  proof cases
    case 1
    then have "digit_val c = Some (n - 48)" by (simp add: digit_val_def n_def)
    moreover have "n - 48 < 10" using 1 by arith
    then have "digit_char (n - 48) = c" using 1 c by (simp add: digit_char_def)
    moreover have "n - 48 < 36" using 1 by arith
    ultimately show ?thesis by (intro exI [of _ "n - 48"]) simp
  next
    case 2
    then have "digit_val c = Some (n - 87)" by (simp add: digit_val_def n_def)
    moreover have "\<not> n - 87 < 10" using 2 by arith
    then have "digit_char (n - 87) = c" using 2 c by (simp add: digit_char_def)
    moreover have "n - 87 < 36" using 2 by arith
    ultimately show ?thesis by (intro exI [of _ "n - 87"]) simp
  qed
qed

lemma wid_char_is_digit: "is_wid_char c \<Longrightarrow> is_digit 36 c"
  using wid_char_digit [of c] by (auto simp: is_digit_def)

lemma digits_value_Cons_ge:
  "foldl (\<lambda>a c. a * r + the (digit_val c)) a ds \<ge> a" if "1 \<le> r"
  using that
proof (induction ds arbitrary: a)
  case Nil
  then show ?case by simp
next
  case (Cons d ds)
  have "a \<le> a * r + the (digit_val d)" using Cons.prems by (cases r) auto
  also have "\<dots> \<le> foldl (\<lambda>a c. a * r + the (digit_val c)) (a * r + the (digit_val d)) ds"
    using Cons by simp
  finally show ?case by simp
qed

lemma digits_value_pos:
  assumes "w \<noteq> []" and "is_wid_char (hd w)" and "hd w \<noteq> CHR ''0''"
  shows "0 < digits_value 36 w"
proof -
  obtain c cs where w: "w = c # cs" using assms(1) by (cases w) auto
  obtain d where d: "d < 36" "digit_val c = Some d" "digit_char d = c"
    using wid_char_digit [of c] assms(2) by (auto simp: w)
  have "of_char (CHR ''0'') = (48::nat)" by simp
  then have "char_of (48::nat) = CHR ''0''" by (metis char_of_char)
  then have "digit_char 0 = CHR ''0''" by (simp add: digit_char_def)
  note z = this
  have "d \<noteq> 0"
  proof
    assume "d = 0"
    then have "c = CHR ''0''" using d(3) \<open>digit_char 0 = CHR ''0''\<close> by simp
    then show False using assms(3) by (simp add: w)
  qed
  then have "1 \<le> 0 * 36 + the (digit_val c)" using d(2) by simp
  also have "\<dots> \<le> digits_value 36 w"
    unfolding digits_value_def w using digits_value_Cons_ge [of 36] by simp
  finally show ?thesis by simp
qed

lemma to_digits_single: "d < r \<Longrightarrow> to_digits r d = [digit_char d]"
  by (subst to_digits.simps) simp

lemma to_digits_step:
  assumes "d < r" and "0 < n" and "2 \<le> r"
  shows "to_digits r (n * r + d) = to_digits r n @ [digit_char d]"
proof -
  have r: "\<not> (r < 2 \<or> n * r + d < r)"
  proof -
    have "r \<le> n * r" using assms(2) by (cases n) simp_all
    then show ?thesis using assms(3) by arith
  qed
  have dv: "(n * r + d) div r = n" "(n * r + d) mod r = d" using assms(1) by simp_all
  have "to_digits r (n * r + d)
      = to_digits r ((n * r + d) div r) @ [digit_char ((n * r + d) mod r)]"
    using r by (subst to_digits.simps) (simp only: if_False)
  then show ?thesis by (simp only: dv)
qed

lemma to_digits_canonical:
  "canonical36 w \<Longrightarrow> to_digits 36 (digits_value 36 w) = w"
proof (induction w rule: rev_induct)
  case Nil
  then show ?case by (simp add: canonical36_def)
next
  case (snoc c w)
  obtain d where d: "d < 36" "digit_val c = Some d" "digit_char d = c"
    using wid_char_digit [of c] snoc.prems by (auto simp: canonical36_def)
  have v: "digits_value 36 (w @ [c]) = digits_value 36 w * 36 + d"
    by (simp add: digits_value_snoc d(2))
  show ?case
  proof (cases "w = []")
    case True
    have "digits_value 36 [c] = d" by (simp add: digits_value_def d(2))
    then show ?thesis using True d(1,3) by (simp add: to_digits_single)
  next
    case False
    then have hd: "hd (w @ [c]) = hd w" by simp
    have nz: "hd w \<noteq> CHR ''0''"
      using snoc.prems False unfolding canonical36_def hd by auto
    have can: "canonical36 w" using snoc.prems False nz by (auto simp: canonical36_def)
    have "is_wid_char (hd w)" using can by (auto simp: canonical36_def)
    then have pos: "0 < digits_value 36 w" using digits_value_pos False nz by simp
    have "to_digits 36 (digits_value 36 w * 36 + d) = to_digits 36 (digits_value 36 w) @ [digit_char d]"
      using d(1) pos by (rule to_digits_step) simp
    then show ?thesis using snoc.IH [OF can] by (simp only: v d(3))
  qed
qed

lemma gid_to_wid_nonneg:
  assumes "0 \<le> g" and "g < 2 ^ 31"
  shows "gid_to_wid (Intg g) = to_digits 36 (nat (g XOR 31578))"
proof -
  have r: "0 \<le> g XOR 31578" "g XOR 31578 < 2 ^ 31" using xor_key_range [OF assms] by simp_all
  have "js_xor (Intg g) (Intg 31578) = g XOR 31578"
    using assms by (simp add: js_xor_def to_int32_id)
  moreover have "parseInt (string_of_int (g XOR 31578)) 0 = Intg (g XOR 31578)"
    using r by (intro parseInt_string_of_int) simp
  ultimately show ?thesis using r by (simp add: gid_to_wid_def toString36_def)
qed

lemma wid_to_gid_digits:
  assumes "n < 2 ^ 31"
  shows "wid_to_gid (to_digits 36 n) = int n XOR 31578"
proof -
  have "parseInt (to_digits 36 n) 36 = Intg (int n)"
    using assms
    by (simp add: parseInt_digits to_digits_not_Nil to_digits_all_digits
        digits_value_to_digits number_of_nat_small)
  then show ?thesis using assms by (simp add: wid_to_gid_def js_xor_def to_int32_id)
qed

lemma to_int32_key: "to_int32 (Intg 31578) = 31578"
  by (simp add: to_int32_id)

lemma takeWhile_no_head: "s = [] \<or> \<not> P (hd s) \<Longrightarrow> takeWhile P s = []"
  by (cases s) auto

lemma to_digits_inj:
  assumes "to_digits 10 m = to_digits 10 n"
  shows "m = n"
proof -
  have "digits_value 10 (to_digits 10 m) = digits_value 10 (to_digits 10 n)"
    by (simp only: assms)
  then show ?thesis by (simp add: digits_value_to_digits)
qed

lemma to_digits_no_dash: "to_digits 10 n \<noteq> CHR ''-'' # ds"
proof
  assume a: "to_digits 10 n = CHR ''-'' # ds"
  then have "CHR ''-'' \<in> set (to_digits 10 n)" by simp
  then have "is_digit 10 CHR ''-''" using to_digits_all_digits [of 10] by simp
  then show False using is_digit_plain by blast
qed

lemma string_of_int_inj:
  assumes "string_of_int a = string_of_int b"
  shows "a = b"
proof -
  consider "a < 0" "b < 0" | "0 \<le> a" "0 \<le> b" | "a < 0" "0 \<le> b" | "0 \<le> a" "b < 0"
    by linarith
  then show ?thesis
  proof cases
    case 1
    then have "to_digits 10 (nat (- a)) = to_digits 10 (nat (- b))"
      using assms by (simp add: string_of_int_def)
    then have "nat (- a) = nat (- b)" by (rule to_digits_inj)
    then show ?thesis using 1 by simp
  next
    case 2
    then have "to_digits 10 (nat a) = to_digits 10 (nat b)"
      using assms by (simp add: string_of_int_def)
    then have "nat a = nat b" by (rule to_digits_inj)
    then show ?thesis using 2 by simp
  next
    case 3
    then have "to_digits 10 (nat b) = CHR ''-'' # to_digits 10 (nat (- a))"
      using assms by (simp add: string_of_int_def)
    then show ?thesis using to_digits_no_dash by blast
  next
    case 4
    then have "to_digits 10 (nat a) = CHR ''-'' # to_digits 10 (nat (- b))"
      using assms by (simp add: string_of_int_def)
    then show ?thesis using to_digits_no_dash by blast
  qed
qed

lemma split_at_underscore:
  assumes "w1 @ CHR ''_'' # x1 = w2 @ CHR ''_'' # x2"
    and "CHR ''_'' \<notin> set w1" and "CHR ''_'' \<notin> set w2"
  shows "w1 = w2 \<and> x1 = x2"
proof -
  have "takeWhile (\<lambda>c. c \<noteq> CHR ''_'') (w @ CHR ''_'' # x) = w" if "CHR ''_'' \<notin> set w" for w x
    using that by (induction w) auto
  then have "w1 = w2" using assms by metis
  then show ?thesis using assms(1) by simp
qed

lemma alnum_not_underscore: "\<forall>c\<in>set w. is_alnum c \<Longrightarrow> CHR ''_'' \<notin> set w"
  by (auto simp: is_alnum_def Let_def)

section \<open>How a method leaves the state\<close>

text \<open>\<open>ends_with P r\<close>: the state in which the call \<open>r\<close> ended, returning or throwing, has \<open>P\<close>.\<close>

definition ends_with :: "(widget \<Rightarrow> bool) \<Rightarrow> result \<Rightarrow> bool" where
  "ends_with P r = P (state_of r)"

lemma ends_Done: "P s \<Longrightarrow> ends_with P (Done s)"
  by (simp add: ends_with_def)

lemma ends_Threw: "P s \<Longrightarrow> ends_with P (Threw e s)"
  by (simp add: ends_with_def)

lemma ends_attempt:
  "P s \<Longrightarrow> (\<And>x. v = Inr x \<Longrightarrow> ends_with P (f x)) \<Longrightarrow> ends_with P (attempt v s f)"
  by (cases v) (simp_all add: attempt_def ends_with_def)

lemma ends_next_do:
  "ends_with Q r \<Longrightarrow> (\<And>s. Q s \<Longrightarrow> P s) \<Longrightarrow> (\<And>s. Q s \<Longrightarrow> ends_with P (k s)) \<Longrightarrow> ends_with P (next_do r k)"
  by (cases r) (simp_all add: ends_with_def)

lemma ends_and_sync:
  "ends_with Q r \<Longrightarrow> (\<And>s. Q s \<Longrightarrow> P (f s)) \<Longrightarrow> ends_with P (and_sync r f)"
  by (cases r) (simp_all add: ends_with_def)

lemma ends_weaken: "ends_with Q r \<Longrightarrow> (\<And>s. Q s \<Longrightarrow> P s) \<Longrightarrow> ends_with P r"
  by (simp add: ends_with_def)

text \<open>What no method but the sign-in changes, with the cache only ever growing.\<close>

definition stable :: "widget \<Rightarrow> widget \<Rightarrow> bool" where
  "stable s s' \<longleftrightarrow>
     published s' = published s \<and> key s' = key s \<and> tabId s' = tabId s \<and>
     headers (publicajax s') = headers (publicajax s) \<and>
     headers (listsheetsajax s') = headers (listsheetsajax s) \<and>
     headers (worksheetajax s') = headers (worksheetajax s) \<and>
     headers (cellrowsajax s') = headers (cellrowsajax s) \<and>
     rowDataCache s \<subseteq>\<^sub>m rowDataCache s'"

definition same :: "widget \<Rightarrow> widget \<Rightarrow> bool" where
  "same s s' \<longleftrightarrow> stable s s' \<and> requests s' = requests s \<and> worksheetId s' = worksheetId s"

definition quiet :: "widget \<Rightarrow> widget \<Rightarrow> bool" where
  "quiet s s' \<longleftrightarrow>
     stable s s' \<and> requests s' = requests s \<and>
     (worksheetId s' = worksheetId s \<or> \<not> has_id (worksheetId s'))"

definition sent :: "ajax_id \<Rightarrow> widget \<Rightarrow> widget \<Rightarrow> bool" where
  "sent a s s' \<longleftrightarrow>
     stable s s' \<and> requests s' = hd (requests s') # requests s \<and>
     target (hd (requests s')) = a \<and> req_headers (hd (requests s')) = headers (child a s) \<and>
     (a = Publicajax \<longrightarrow> published s) \<and>
     (a = Cellrowsajax \<longrightarrow> worksheetId s' = worksheetId s)"

lemma same_refl: "same s s"
  by (simp add: same_def stable_def)

lemma tabChanged_same:
  assumes "same s t"
  shows "ends_with (same s) (tabChanged t)"
  unfolding tabChanged_def Let_def
  using assms
  by (auto intro!: ends_attempt ends_Done ends_Threw simp: same_def stable_def fire_def)

lemma setTab_same: "same s t \<Longrightarrow> ends_with (same s) (setTab v t)"
  unfolding setTab_def by (rule tabChanged_same) (simp add: same_def stable_def)


lemma same_quiet: "same s s' \<Longrightarrow> quiet s s'"
  by (simp add: same_def quiet_def)

lemma same_update [simp]:
  "same s (fire ty d x) = same s x"
  "same s (x\<lparr>rows := v\<rparr>) = same s x"
  "same s (x\<lparr>tab := v\<rparr>) = same s x"
  "same s (x\<lparr>sheet := v\<rparr>) = same s x"
  "same s (x\<lparr>spreadsheets := v\<rparr>) = same s x"
  by (simp_all add: same_def stable_def fire_def)

lemma same_cache_None: "same s t \<Longrightarrow> rowDataCache t k = None \<Longrightarrow> rowDataCache s k = None"
  by (auto simp: same_def stable_def map_le_def dom_def)

lemma recache_same:
  "same s x \<Longrightarrow> (stored \<Longrightarrow> rowDataCache s k = None) \<Longrightarrow> same s (recache stored k f x)"
  by (auto simp: same_def stable_def recache_def map_le_def dom_def)

lemma onCellRows_same:
  assumes "same s t"
  shows "ends_with (same s) (onCellRows e t)"
proof (cases e)
  case None
  then show ?thesis using assms by (simp add: onCellRows_def ends_Threw)
next
  case (Some r)
  have none: "rowDataCache t k = None \<Longrightarrow> rowDataCache s k = None" for k
    using assms by (rule same_cache_None)
  show ?thesis
    unfolding onCellRows_def Let_def Some option.case
    using assms none
    by (auto intro!: ends_attempt ends_Done ends_Threw recache_same
        ends_next_do [where Q = "same s"] ends_and_sync [where Q = "same s"] setTab_same)
qed

lemma getCellRows_effect:
  assumes "same s t"
  shows "ends_with (\<lambda>s'. quiet s s' \<or> sent Cellrowsajax s s') (getCellRows t)"
proof (cases "rowDataCache t (generateCacheKey t)")
  case None
  then show ?thesis using assms
    by (simp add: getCellRows_def ends_with_def generateRequest_def sent_def same_def stable_def)
next
  case (Some c)
  then show ?thesis using assms
    by (simp add: getCellRows_def onCellRows_def ends_with_def same_quiet)
qed

lemma keyChanged_effect:
  assumes "same s t"
  shows "ends_with (\<lambda>s'. quiet s s' \<or> sent Publicajax s s') (keyChanged t)"
  using assms
  by (auto simp: keyChanged_def ends_with_def generateRequest_def sent_def same_def stable_def quiet_def)

lemma tabIdChanged_effect:
  assumes "same s t"
  shows "ends_with (\<lambda>s'. quiet s s' \<or> has_id (worksheetId s) \<and> sent Cellrowsajax s s'
           \<or> sent Publicajax s s') (tabIdChanged t)"
proof -
  have w: "worksheetId t = worksheetId s" using assms by (simp add: same_def)
  show ?thesis
    unfolding tabIdChanged_def
    using getCellRows_effect [OF assms] keyChanged_effect [OF assms] assms w
    by (auto simp: ends_with_def same_quiet)
qed

lemma getWorksheet_effect:
  assumes "stable s t" and "requests t = requests s"
  shows "ends_with (\<lambda>s'. quiet s s' \<or> sent Worksheetajax s s') (getWorksheet t)"
  using assms
  by (auto simp: getWorksheet_def ends_with_def generateRequest_def sent_def stable_def quiet_def)

lemma sheetChanged_effect:
  assumes "same s t"
  shows "ends_with (\<lambda>s'. quiet s s' \<or> sent Worksheetajax s s') (sheetChanged t)"
  unfolding sheetChanged_def Let_def
  using assms
  by (auto intro!: ends_attempt ends_Done ends_Threw getWorksheet_effect
      simp: same_quiet) (simp_all add: same_def stable_def)


lemma share_sheet_effect [simp]:
  "quiet s (share_sheet i x) = quiet s x"
  "sent a s (share_sheet i x) = sent a s x"
  by (simp_all add: quiet_def sent_def stable_def share_sheet_def)

lemma setSheet_effect:
  assumes "same s t"
  shows "ends_with (\<lambda>s'. quiet s s' \<or> sent Worksheetajax s s') (setSheet v t)"
  unfolding setSheet_def using assms by (intro sheetChanged_effect) simp

lemma onSpreadsheetList_effect:
  "ends_with (\<lambda>s'. quiet s s' \<or> sent Worksheetajax s s') (onSpreadsheetList r s)"
  unfolding onSpreadsheetList_def Let_def
  by (auto intro!: ends_attempt ends_Done ends_Threw
        ends_and_sync [where Q = "\<lambda>s'. quiet s s' \<or> sent Worksheetajax s s'"] setSheet_effect
      simp: same_quiet same_refl split: option.split)

lemma onWorksheet_effect:
  "ends_with (\<lambda>s'. quiet s s' \<or> sent Cellrowsajax s s') (onWorksheet r s)"
  unfolding onWorksheet_def
  by (auto intro!: ends_attempt ends_next_do [where Q = "same s"] setTab_same getCellRows_effect
      simp: same_quiet same_refl)

lemma onSignInSuccess_eq:
  "onSignInSuccess token s =
     Done (s\<lparr>listsheetsajax := \<lparr>url = SCOPE @ ''/spreadsheets/private/full'', headers = bearer token\<rparr>,
             worksheetajax := (worksheetajax s)\<lparr>headers := bearer token\<rparr>,
             cellrowsajax := (cellrowsajax s)\<lparr>headers := bearer token\<rparr>,
             requests := \<lparr>target = Listsheetsajax, req_url = SCOPE @ ''/spreadsheets/private/full'',
                           req_headers = bearer token\<rparr> # requests s\<rparr>)"
  by (simp add: onSignInSuccess_def listSpreadsheets_def generateRequest_def)

text \<open>What every event guarantees.\<close>

lemma handle_cache: "rowDataCache s \<subseteq>\<^sub>m rowDataCache (state_of (handle ev s))"
proof (cases ev)
  case (KeySet k)
  then show ?thesis
    using keyChanged_effect [of "s\<lparr>key := k\<rparr>" "s\<lparr>key := k\<rparr>"]
    by (auto simp: ends_with_def same_refl quiet_def sent_def stable_def)
next
  case (TabIdSet n)
  then show ?thesis
    using tabIdChanged_effect [of "s\<lparr>tabId := n\<rparr>" "s\<lparr>tabId := n\<rparr>"]
    by (auto simp: ends_with_def same_refl quiet_def sent_def stable_def configUpdate_def)
next
  case (PublishedSet b)
  then show ?thesis
    using tabIdChanged_effect [of "s\<lparr>published := b\<rparr>" "s\<lparr>published := b\<rparr>"]
    by (auto simp: ends_with_def same_refl quiet_def sent_def stable_def configUpdate_def)
next
  case (ClientIdSet c)
  then show ?thesis
    using tabIdChanged_effect [of "s\<lparr>clientId := c\<rparr>" "s\<lparr>clientId := c\<rparr>"]
    by (auto simp: ends_with_def same_refl quiet_def sent_def stable_def configUpdate_def)
next
  case (SignInSuccess token)
  then show ?thesis by (simp add: onSignInSuccess_eq)
next
  case SignInFail
  then show ?thesis by (simp add: onSignInFail_def)
next
  case (Response a r)
  then show ?thesis
    using onCellRows_same [of s s "Some r"] onSpreadsheetList_effect [of s r] onWorksheet_effect [of s r]
    by (cases a) (auto simp: ends_with_def same_refl same_def quiet_def sent_def stable_def)
qed

section \<open>The private flow\<close>

text \<open>
  What holds of an element that has never been published, and, before the first sign-in,
  of one that has not asked for anything yet.
\<close>

definition private_inv :: "widget \<Rightarrow> bool" where
  "private_inv s \<longleftrightarrow>
     \<not> published s \<and> in_order (requests s) \<and>
     (\<forall>q\<in>set (requests s). \<exists>token. req_headers q = bearer token) \<and>
     (\<forall>q\<in>set (requests s). target q = Listsheetsajax \<longrightarrow> req_url q = SCOPE @ ''/spreadsheets/private/full'') \<and>
     (requests s \<noteq> [] \<longrightarrow>
        (\<exists>token. headers (listsheetsajax s) = bearer token) \<and>
        (\<exists>token. headers (worksheetajax s) = bearer token) \<and>
        (\<exists>token. headers (cellrowsajax s) = bearer token)) \<and>
     (has_id (worksheetId s) \<longrightarrow> Worksheetajax \<in> target ` set (requests s))"

definition idle :: "widget \<Rightarrow> bool" where
  "idle s \<longleftrightarrow> \<not> published s \<and> \<not> has_id (worksheetId s) \<and> requests s = []"

lemma inv_quiet: "private_inv s \<Longrightarrow> quiet s s' \<Longrightarrow> private_inv s'"
  by (auto simp: private_inv_def quiet_def stable_def)

lemma inv_sent:
  assumes "private_inv s" and "sent a s s'"
    and "a = Worksheetajax \<and> Listsheetsajax \<in> target ` set (requests s)
         \<or> a = Cellrowsajax \<and> Worksheetajax \<in> target ` set (requests s)"
  shows "private_inv s'"
proof -
  obtain q where q: "requests s' = q # requests s" "target q = a" "req_headers q = headers (child a s)"
    using assms(2) by (auto simp: sent_def)
  have ne: "requests s \<noteq> []" using assms(3) by auto
  then have h: "\<exists>token. headers (child a s) = bearer token"
    using assms(1,3) by (auto simp: private_inv_def)
  have st: "stable s s'" using assms(2) by (simp add: sent_def)
  have w: "a = Cellrowsajax \<Longrightarrow> worksheetId s' = worksheetId s" using assms(2) by (simp add: sent_def)
  show ?thesis
    using assms(1,3) q h st w
    by (auto simp: private_inv_def stable_def)
qed

lemma no_public: "\<not> published s \<Longrightarrow> \<not> sent Publicajax s s'"
  by (simp add: sent_def)

lemma inv_sign_in: "private_inv s \<Longrightarrow> private_inv (state_of (onSignInSuccess token s))"
  by (auto simp: onSignInSuccess_eq private_inv_def)

lemma inv_keyChanged:
  assumes "private_inv t"
  shows "private_inv (state_of (keyChanged t))"
proof -
  have "quiet t (state_of (keyChanged t)) \<or> sent Publicajax t (state_of (keyChanged t))"
    using keyChanged_effect [OF same_refl, of t] by (simp add: ends_with_def)
  moreover have "\<not> published t" using assms by (simp add: private_inv_def)
  ultimately have "quiet t (state_of (keyChanged t))" using no_public by blast
  then show ?thesis using assms inv_quiet by blast
qed

lemma inv_tabIdChanged:
  assumes "private_inv t"
  shows "private_inv (state_of (tabIdChanged t))"
proof -
  define s' where "s' = state_of (tabIdChanged t)"
  have e: "quiet t s' \<or> has_id (worksheetId t) \<and> sent Cellrowsajax t s' \<or> sent Publicajax t s'"
    using tabIdChanged_effect [OF same_refl, of t] unfolding ends_with_def s'_def .
  have "\<not> published t" using assms by (simp add: private_inv_def)
  then have np: "\<not> sent Publicajax t s'" by (rule no_public)
  have "private_inv s'"
  proof (cases "quiet t s'")
    case True
    with assms show ?thesis by (rule inv_quiet)
  next
    case False
    with e np have c: "has_id (worksheetId t)" "sent Cellrowsajax t s'" by blast+
    have "Worksheetajax \<in> target ` set (requests t)" using assms c(1) by (simp add: private_inv_def)
    then have "Cellrowsajax = Worksheetajax \<and> Listsheetsajax \<in> target ` set (requests t)
         \<or> Cellrowsajax = Cellrowsajax \<and> Worksheetajax \<in> target ` set (requests t)" by simp
    with assms c(2) show ?thesis by (rule inv_sent)
  qed
  then show ?thesis unfolding s'_def .
qed

lemma inv_config:
  "private_inv s \<Longrightarrow> private_inv (s\<lparr>key := k\<rparr>)"
  "private_inv s \<Longrightarrow> private_inv (s\<lparr>tabId := n\<rparr>)"
  "private_inv s \<Longrightarrow> private_inv (s\<lparr>clientId := c\<rparr>)"
  by (simp_all add: private_inv_def)

lemma inv_no_public: "private_inv s \<Longrightarrow> Publicajax \<notin> target ` set (requests s)"
proof -
  have "in_order qs \<Longrightarrow> Publicajax \<notin> target ` set qs" for qs
    by (induction qs) (auto split: ajax_id.splits)
  then show "private_inv s \<Longrightarrow> Publicajax \<notin> target ` set (requests s)"
    by (simp add: private_inv_def)
qed

lemma inv_onSpreadsheetList:
  assumes "private_inv s" and "Listsheetsajax \<in> target ` set (requests s)"
  shows "private_inv (state_of (onSpreadsheetList r s))"
proof -
  define s' where "s' = state_of (onSpreadsheetList r s)"
  have e: "quiet s s' \<or> sent Worksheetajax s s'"
    using onSpreadsheetList_effect [of s r] unfolding ends_with_def s'_def .
  have "private_inv s'"
  proof (cases "quiet s s'")
    case True
    with assms(1) show ?thesis by (rule inv_quiet)
  next
    case False
    with e have c: "sent Worksheetajax s s'" by blast
    have "Worksheetajax = Worksheetajax \<and> Listsheetsajax \<in> target ` set (requests s)
         \<or> Worksheetajax = Cellrowsajax \<and> Worksheetajax \<in> target ` set (requests s)"
      using assms(2) by simp
    with assms(1) c show ?thesis by (rule inv_sent)
  qed
  then show ?thesis unfolding s'_def .
qed

lemma inv_onWorksheet:
  assumes "private_inv s" and "Worksheetajax \<in> target ` set (requests s)"
  shows "private_inv (state_of (onWorksheet r s))"
proof -
  define s' where "s' = state_of (onWorksheet r s)"
  have e: "quiet s s' \<or> sent Cellrowsajax s s'"
    using onWorksheet_effect [of s r] unfolding ends_with_def s'_def .
  have "private_inv s'"
  proof (cases "quiet s s'")
    case True
    with assms(1) show ?thesis by (rule inv_quiet)
  next
    case False
    with e have c: "sent Cellrowsajax s s'" by blast
    have "Cellrowsajax = Worksheetajax \<and> Listsheetsajax \<in> target ` set (requests s)
         \<or> Cellrowsajax = Cellrowsajax \<and> Worksheetajax \<in> target ` set (requests s)"
      using assms(2) by simp
    with assms(1) c show ?thesis by (rule inv_sent)
  qed
  then show ?thesis unfolding s'_def .
qed

lemma inv_onCellRows:
  assumes "private_inv s"
  shows "private_inv (state_of (onCellRows e s))"
proof -
  have "same s (state_of (onCellRows e s))"
    using onCellRows_same [OF same_refl, of s e] unfolding ends_with_def .
  then have "quiet s (state_of (onCellRows e s))" by (rule same_quiet)
  with assms show ?thesis by (rule inv_quiet)
qed

lemma inv_step:
  assumes "private_inv s" and "possible s ev" and "\<not> sets_published ev"
  shows "private_inv (state_of (handle ev s))"
proof (cases ev)
  case (KeySet k)
  then show ?thesis using assms(1) by (simp add: inv_keyChanged inv_config)
next
  case (TabIdSet n)
  then show ?thesis using assms(1) by (simp add: inv_tabIdChanged inv_config configUpdate_def)
next
  case (PublishedSet b)
  then show ?thesis using assms(3) by simp
next
  case (ClientIdSet c)
  then show ?thesis using assms(1) by (simp add: inv_tabIdChanged inv_config configUpdate_def)
next
  case (SignInSuccess token)
  then show ?thesis using assms(1) by (simp add: inv_sign_in)
next
  case SignInFail
  then show ?thesis using assms(1) by (simp add: onSignInFail_def)
next
  case (Response a r)
  then have sent_before: "a \<in> target ` set (requests s)" using assms(2) by simp
  show ?thesis
  proof (cases a)
    case Publicajax
    then show ?thesis using sent_before inv_no_public [OF assms(1)] by simp
  next
    case Listsheetsajax
    then show ?thesis using Response sent_before assms(1) by (simp add: inv_onSpreadsheetList)
  next
    case Worksheetajax
    then show ?thesis using Response sent_before assms(1) by (simp add: inv_onWorksheet)
  next
    case Cellrowsajax
    then show ?thesis using Response assms(1) by (simp add: inv_onCellRows)
  qed
qed

lemma inv_run:
  "private_inv s \<Longrightarrow> \<forall>ev\<in>set evs. \<not> sets_published ev \<Longrightarrow> run s evs = Some s' \<Longrightarrow> private_inv s'"
proof (induction evs arbitrary: s)
  case Nil
  then show ?case by simp
next
  case (Cons ev evs)
  then have p: "possible s ev" and r: "run (state_of (handle ev s)) evs = Some s'"
    by (auto split: if_splits)
  have "private_inv (state_of (handle ev s))" using Cons.prems(1,2) p by (intro inv_step) auto
  then show ?case using Cons.IH r Cons.prems(2) by auto
qed

lemma idle_quiet: "idle s \<Longrightarrow> quiet s s' \<Longrightarrow> idle s'"
  by (auto simp: idle_def quiet_def stable_def)

lemma idle_config:
  "idle s \<Longrightarrow> idle (s\<lparr>key := k\<rparr>)"
  "idle s \<Longrightarrow> idle (s\<lparr>tabId := n\<rparr>)"
  "idle s \<Longrightarrow> idle (s\<lparr>clientId := c\<rparr>)"
  by (simp_all add: idle_def)

lemma idle_keyChanged:
  assumes "idle t"
  shows "idle (state_of (keyChanged t))"
proof -
  have "quiet t (state_of (keyChanged t)) \<or> sent Publicajax t (state_of (keyChanged t))"
    using keyChanged_effect [OF same_refl, of t] by (simp add: ends_with_def)
  moreover have "\<not> published t" using assms by (simp add: idle_def)
  ultimately have "quiet t (state_of (keyChanged t))" using no_public by blast
  then show ?thesis using assms idle_quiet by blast
qed

lemma idle_tabIdChanged:
  assumes "idle t"
  shows "idle (state_of (tabIdChanged t))"
proof -
  define s' where "s' = state_of (tabIdChanged t)"
  have "quiet t s' \<or> has_id (worksheetId t) \<and> sent Cellrowsajax t s' \<or> sent Publicajax t s'"
    using tabIdChanged_effect [OF same_refl, of t] by (simp add: ends_with_def s'_def)
  moreover have "\<not> published t" "\<not> has_id (worksheetId t)" using assms by (simp_all add: idle_def)
  ultimately have "quiet t s'" using no_public by blast
  then show ?thesis using assms idle_quiet by (simp add: s'_def)
qed

lemma idle_step:
  assumes "idle s" and "possible s ev" and "\<not> sets_published ev" and "\<not> is_sign_in ev"
  shows "idle (state_of (handle ev s))"
proof (cases ev)
  case (KeySet k)
  then show ?thesis using assms(1) by (simp add: idle_keyChanged idle_config)
next
  case (TabIdSet n)
  then show ?thesis using assms(1) by (simp add: idle_tabIdChanged idle_config configUpdate_def)
next
  case (ClientIdSet c)
  then show ?thesis using assms(1) by (simp add: idle_tabIdChanged idle_config configUpdate_def)
next
  case SignInFail
  then show ?thesis using assms(1) by (simp add: onSignInFail_def)
next
  case (Response a r)
  then show ?thesis using assms(1,2) by (simp add: idle_def)
qed (use assms in simp_all)

lemma idle_run:
  "idle s \<Longrightarrow> \<forall>ev\<in>set evs. \<not> sets_published ev \<and> \<not> is_sign_in ev \<Longrightarrow> run s evs = Some s' \<Longrightarrow> idle s'"
proof (induction evs arbitrary: s)
  case Nil
  then show ?case by simp
next
  case (Cons ev evs)
  then have p: "possible s ev" and r: "run (state_of (handle ev s)) evs = Some s'"
    by (auto split: if_splits)
  have "idle (state_of (handle ev s))" using Cons.prems(1,2) p by (intro idle_step) auto
  then show ?case using Cons.IH r Cons.prems(2) by auto
qed

lemma idle_inv: "idle s \<Longrightarrow> private_inv s"
  by (simp add: idle_def private_inv_def)

section \<open>The cache\<close>

lemma tabChanged_cache:
  "rowDataCache t = c \<Longrightarrow> ends_with (\<lambda>s'. rowDataCache s' = c) (tabChanged t)"
  unfolding tabChanged_def Let_def
  by (auto intro!: ends_attempt ends_Done ends_Threw simp: fire_def)

lemma setTab_cache:
  "rowDataCache t = c \<Longrightarrow> ends_with (\<lambda>s'. rowDataCache s' = c) (setTab v t)"
  unfolding setTab_def by (rule tabChanged_cache) simp

text \<open>
  What a row-feed response does to the cache \<open>c\<close>, with \<open>k\<close> the key of the element: an
  empty slot \<open>k\<close> is filled with an entry, a filled one is left, and so is every other.
\<close>

definition slot :: "(string \<rightharpoonup> jsval) \<Rightarrow> string \<Rightarrow> (string \<rightharpoonup> jsval) \<Rightarrow> bool" where
  "slot c k c' \<longleftrightarrow> (c k = None \<longrightarrow> (\<exists>f. c' = c(k \<mapsto> cache_entry f))) \<and> (c k \<noteq> None \<longrightarrow> c' = c)"

lemma slot_recache:
  "slot c k (rowDataCache x) \<Longrightarrow> slot c k (rowDataCache (recache (c k = None) k f x))"
  by (auto simp: slot_def recache_def)

lemma setTab_slot:
  "slot c k (rowDataCache t) \<Longrightarrow> ends_with (\<lambda>s'. slot c k (rowDataCache s')) (setTab v t)"
  using setTab_cache [of t "rowDataCache t" v] by (simp add: ends_with_def)

lemma onCellRows_slot:
  assumes "get r ''feed'' = Inr feed"
  shows "ends_with (\<lambda>s'. slot (rowDataCache s) (generateCacheKey s) (rowDataCache s')) (onCellRows (Some r) s)"
proof -
  define c where "c = rowDataCache s"
  define k where "k = generateCacheKey s"
  have first: "slot c k (rowDataCache (recache (c k = None) k feed s))"
    by (auto simp: slot_def recache_def c_def)
  have "ends_with (\<lambda>s'. slot c k (rowDataCache s'))
     (let stored = (c k = None); s1 = recache stored k feed s in
          attempt (get feed ''entry'') s1 (\<lambda>entry.
          let s2 = s1\<lparr>rows := entry\<rparr> in
          attempt (authors_of feed) s2 (\<lambda>authors.
          attempt (polymer_set (rows s2) ''authors'' authors) s2 (\<lambda>rows1.
          let feed1 = (if truthy entry then with_field feed ''entry'' rows1 else feed);
              s3 = recache stored k feed1 (s2\<lparr>rows := rows1\<rparr>) in
          if published s3 then
            next_do (and_sync (setTab feed1 s3) (\<lambda>s4. recache stored k (tab s4) s4))
              (\<lambda>s5. Done (fire ''rows'' (rows s5) s5))
          else Done (fire ''rows'' (rows s3) s3)))))"
    unfolding Let_def
    using first
    by (auto intro!: ends_attempt ends_Done ends_Threw slot_recache
        ends_next_do [where Q = "\<lambda>s'. slot c k (rowDataCache s')"]
        ends_and_sync [where Q = "\<lambda>s'. slot c k (rowDataCache s')"] setTab_slot
        simp: fire_def)
  from this [unfolded c_def k_def] show ?thesis
    by (simp add: onCellRows_def assms attempt_def Let_def)
qed


lemma handle_slot:
  assumes "get r ''feed'' = Inr feed" and "a = Cellrowsajax \<or> a = Publicajax"
  shows "slot (rowDataCache s) (generateCacheKey s) (rowDataCache (state_of (handle (Response a r) s)))"
  using onCellRows_slot [OF assms(1), of s] assms(2) by (auto simp: ends_with_def)


section \<open>The projection\<close>

lemma field_absent: "k \<notin> fst ` set fs \<Longrightarrow> field fs k = Undefined"
  by (simp add: field_def map_of_eq_None_iff [THEN iffD2])

lemma field_update:
  "field (AList.update k x fs) k' = (if k' = k then x else field fs k')"
  by (simp add: field_def update_conv')

lemma attempt_Inr: "attempt (Inr x) s f = f x"
  by (simp add: attempt_def)

lemma map_all_authors:
  "list_all2 api_author as ps \<Longrightarrow> map_all author_pair as = Inr (map plain_author ps)"
  by (induction rule: list_all2_induct)
    (simp_all add: author_pair_def api_author_def plain_author_def and_then_def)

lemma authors_of_wrapped:
  assumes "get v ''author'' = Inr (Arr as xs)" and "list_all2 api_author as ps"
  shows "authors_of v = Inr (Arr (map plain_author ps) [])"
  using assms by (simp add: authors_of_def and_then_def map_all_authors)

lemma text_atD:
  assumes "text_at v k = Inr (Str x)"
  obtains w where "get v k = Inr w" and "get w ''$t'' = Inr (Str x)" and "truthy w"
proof -
  obtain w where w: "get v k = Inr w" "get w ''$t'' = Inr (Str x)"
    using assms by (auto simp: text_at_def and_then_def split: sum.splits)
  moreover have "truthy w" using w(2) by (cases w) (auto split: if_splits)
  ultimately show ?thesis using that by blast
qed

lemma wrapped_fieldsD:
  assumes "wrapped_fields v T U ps"
  obtains as xs where "text_at v ''title'' = Inr (Str T)" and "text_at v ''updated'' = Inr (Str U)"
    and "get v ''author'' = Inr (Arr as xs)" and "list_all2 api_author as ps"
proof -
  obtain a where a: "get v ''author'' = Inr a" "author_list a ps"
    using assms by (auto simp: wrapped_fields_def split: sum.splits)
  then obtain as xs where "a = Arr as xs" "list_all2 api_author as ps"
    by (cases a) auto
  then show ?thesis using that a assms by (simp add: wrapped_fields_def)
qed

text \<open>An object or an array: what has the fields that the projection reads.\<close>

lemma has_author_cases:
  assumes "get v ''author'' = Inr (Arr as xs)"
  obtains fs where "v = Obj fs" | ys fs where "v = Arr ys fs"
  using assms by (cases v) (auto split: if_splits)

text \<open>
  On a sheet with wrapped fields, \<open>_sheetChanged\<close> gets as far as deriving the worksheet
  id, with the sheet projected by then.
\<close>

lemma sheetChanged_wrapped:
  assumes "wrapped_fields (sheet t) T U ps"
  shows "\<exists>v3. sheetChanged t =
           attempt (and_then (text_at v3 ''id'') last_segment) (t\<lparr>sheet := v3\<rparr>)
             (\<lambda>w. getWorksheet (t\<lparr>sheet := v3, worksheetId := Some w\<rparr>)) \<and>
         projected v3 T U ps \<and> text_at v3 ''id'' = text_at (sheet t) ''id''"
proof -
  from assms obtain as xs where h: "text_at (sheet t) ''title'' = Inr (Str T)"
    "text_at (sheet t) ''updated'' = Inr (Str U)"
    "get (sheet t) ''author'' = Inr (Arr as xs)" "list_all2 api_author as ps"
    by (rule wrapped_fieldsD)
  obtain tw where tw: "get (sheet t) ''title'' = Inr tw" "truthy tw"
    using h(1) by (rule text_atD)
  have au: "authors_of (sheet t) = Inr (Arr (map plain_author ps) [])"
    using h(3,4) by (rule authors_of_wrapped)
  define A where "A = Arr (map plain_author ps) []"
  from h(3) show ?thesis
  proof (cases rule: has_author_cases)
    case (1 fs)
    define v3 where "v3 = Obj (AList.update ''authors'' A (AList.update ''updated'' (Date (Str U)) (AList.update ''title'' (Str T) fs)))"
    have u: "text_at (Obj (AList.update ''title'' (Str T) fs)) ''updated'' = Inr (Str U)"
      using h(2) by (simp add: 1 text_at_def field_update)
    have "sheetChanged t = attempt (and_then (text_at v3 ''id'') last_segment) (t\<lparr>sheet := v3\<rparr>)
           (\<lambda>w. getWorksheet (t\<lparr>sheet := v3, worksheetId := Some w\<rparr>))"
      using tw h(1) au u
      by (simp add: sheetChanged_def attempt_Inr 1 polymer_set_def Let_def A_def [symmetric] v3_def)
    moreover have "projected v3 T U ps" by (simp add: projected_def v3_def field_update A_def)
    moreover have "text_at v3 ''id'' = text_at (sheet t) ''id''"
      by (simp add: text_at_def v3_def 1 field_update)
    ultimately show ?thesis by blast
  next
    case (2 ys fs)
    define v3 where "v3 = Arr ys (AList.update ''authors'' A (AList.update ''updated'' (Date (Str U)) (AList.update ''title'' (Str T) fs)))"
    have u: "text_at (Arr ys (AList.update ''title'' (Str T) fs)) ''updated'' = Inr (Str U)"
      using h(2) by (simp add: 2 text_at_def field_update)
    have "sheetChanged t = attempt (and_then (text_at v3 ''id'') last_segment) (t\<lparr>sheet := v3\<rparr>)
           (\<lambda>w. getWorksheet (t\<lparr>sheet := v3, worksheetId := Some w\<rparr>))"
      using tw h(1) au u
      by (simp add: sheetChanged_def attempt_Inr 2 polymer_set_def Let_def A_def [symmetric] v3_def)
    moreover have "projected v3 T U ps" by (simp add: projected_def v3_def field_update A_def)
    moreover have "text_at v3 ''id'' = text_at (sheet t) ''id''"
      by (simp add: text_at_def v3_def 2 field_update)
    ultimately show ?thesis by blast
  qed
qed

lemma sheetChanged_projects:
  assumes "wrapped_fields (sheet t) T U ps"
  shows "projected (sheet (state_of (sheetChanged t))) T U ps"
proof -
  obtain v3 where v3: "sheetChanged t =
           attempt (and_then (text_at v3 ''id'') last_segment) (t\<lparr>sheet := v3\<rparr>)
             (\<lambda>w. getWorksheet (t\<lparr>sheet := v3, worksheetId := Some w\<rparr>))"
      "projected v3 T U ps"
    using sheetChanged_wrapped [OF assms] by blast
  have "ends_with (\<lambda>s'. sheet s' = v3) (sheetChanged t)"
    unfolding v3(1)
    by (rule ends_attempt) (simp_all add: getWorksheet_def ends_with_def generateRequest_def)
  then show ?thesis using v3(2) by (simp add: ends_with_def)
qed

text \<open>With a worksheet id to derive, the request for the worksheet follows.\<close>

lemma sheetChanged_requests:
  assumes "wrapped_fields (sheet t) T U ps"
    and "and_then (text_at (sheet t) ''id'') last_segment = Inr w" and "w \<noteq> []"
  shows "requests (state_of (sheetChanged t)) =
           \<lparr>target = Worksheetajax,
            req_url = SCOPE @ ''/worksheets/'' @ w @ ''/private/full/'' @ string_of_int (tabId t),
            req_headers = headers (worksheetajax t)\<rparr> # requests t"
proof -
  obtain v3 where v3: "sheetChanged t =
           attempt (and_then (text_at v3 ''id'') last_segment) (t\<lparr>sheet := v3\<rparr>)
             (\<lambda>w. getWorksheet (t\<lparr>sheet := v3, worksheetId := Some w\<rparr>))"
      "text_at v3 ''id'' = text_at (sheet t) ''id''"
    using sheetChanged_wrapped [OF assms(1)] by blast
  show ?thesis
    unfolding v3(1) v3(2) assms(2) attempt_Inr
    using assms(3) by (simp add: getWorksheet_def has_id_def id_string_def generateRequest_def)
qed

lemma tabChanged_projects:
  assumes "wrapped_fields (tab t) T U ps"
  shows "\<exists>s'. tabChanged t = Done s' \<and> projected (tab s') T U ps"
proof -
  from assms obtain as xs where h: "text_at (tab t) ''title'' = Inr (Str T)"
    "text_at (tab t) ''updated'' = Inr (Str U)"
    "get (tab t) ''author'' = Inr (Arr as xs)" "list_all2 api_author as ps"
    by (rule wrapped_fieldsD)
  obtain tw where tw: "get (tab t) ''title'' = Inr tw" "truthy tw"
    using h(1) by (rule text_atD)
  have au: "authors_of (tab t) = Inr (Arr (map plain_author ps) [])"
    using h(3,4) by (rule authors_of_wrapped)
  define A where "A = Arr (map plain_author ps) []"
  from h(3) show ?thesis
  proof (cases rule: has_author_cases)
    case (1 fs)
    have u: "text_at (Obj (AList.update ''title'' (Str T) (AList.update ''authors'' A fs))) ''updated'' = Inr (Str U)"
      using h(2) by (simp add: 1 text_at_def field_update)
    have t1: "text_at (Obj (AList.update ''authors'' A fs)) ''title'' = Inr (Str T)"
      using h(1) by (simp add: 1 text_at_def field_update)
    show ?thesis
      using tw au u t1
      by (simp add: tabChanged_def attempt_Inr 1 polymer_set_def Let_def A_def [symmetric]
          projected_def field_update fire_def)
  next
    case (2 ys fs)
    have u: "text_at (Arr ys (AList.update ''title'' (Str T) (AList.update ''authors'' A fs))) ''updated'' = Inr (Str U)"
      using h(2) by (simp add: 2 text_at_def field_update)
    have t1: "text_at (Arr ys (AList.update ''authors'' A fs)) ''title'' = Inr (Str T)"
      using h(1) by (simp add: 2 text_at_def field_update)
    show ?thesis
      using tw au u t1
      by (simp add: tabChanged_def attempt_Inr 2 polymer_set_def Let_def A_def [symmetric]
          projected_def field_update fire_def)
  qed
qed

lemma setTab_projects:
  assumes "wrapped_fields v T U ps"
  shows "\<exists>s'. setTab v t = Done s' \<and> projected (tab s') T U ps"
  unfolding setTab_def using assms by (intro tabChanged_projects) simp

lemma getCellRows_tab: "tab (state_of (getCellRows t)) = tab t"
  by (simp add: getCellRows_def onCellRows_def generateRequest_def split: option.split)

lemma with_field_other:
  assumes "k \<noteq> k'" and "get v ''author'' = Inr (Arr as xs)"
  shows "get (with_field v k' y) k = get v k"
  using assms(2,1) by (cases rule: has_author_cases) (simp_all add: field_update)

lemma with_field_wrapped:
  assumes "wrapped_fields v T U ps"
  shows "wrapped_fields (with_field v ''entry'' y) T U ps"
proof -
  from assms obtain as xs where h: "get v ''author'' = Inr (Arr as xs)"
    by (rule wrapped_fieldsD)
  show ?thesis
    using assms by (simp add: wrapped_fields_def text_at_def with_field_other [OF _ h])
qed

lemma recache_fields [simp]:
  "published (recache b k f x) = published x"
  "tab (recache b k f x) = tab x"
  "rows (recache b k f x) = rows x"
  by (simp_all add: recache_def)

lemma polymer_set_rows:
  "is_rows x \<Longrightarrow> \<exists>y. polymer_set x k a = Inr y"
  by (cases x) (simp_all add: polymer_set_def)

lemma public_tab_projects:
  assumes "published s" and "get r ''feed'' = Inr v" and "get v ''entry'' = Inr x" and "is_rows x"
    and "wrapped_fields v T U ps"
  shows "projected (tab (state_of (onCellRows (Some r) s))) T U ps"
proof -
  from assms(5) obtain as xs where h: "get v ''author'' = Inr (Arr as xs)"
    "list_all2 api_author as ps"
    by (rule wrapped_fieldsD)
  have au: "authors_of v = Inr (Arr (map plain_author ps) [])"
    using h by (rule authors_of_wrapped)
  obtain y where y: "polymer_set x ''authors'' (Arr (map plain_author ps) []) = Inr y"
    using polymer_set_rows [OF assms(4)] by blast
  define v1 where "v1 = (if truthy x then with_field v ''entry'' y else v)"
  have "wrapped_fields v1 T U ps"
    using assms(5) by (simp add: v1_def with_field_wrapped)
  then have "\<exists>s'. setTab v1 t = Done s' \<and> projected (tab s') T U ps" for t
    by (rule setTab_projects)
  then obtain s4 where s4: "setTab v1 t = Done (s4 t)" "projected (tab (s4 t)) T U ps" for t
    by metis
  show ?thesis
    using assms(1,2,3) au y s4
    by (simp add: onCellRows_def attempt_Inr Let_def v1_def [symmetric] fire_def)
qed

text \<open>After the worksheet, the rows: the request that follows a worksheet response.\<close>

lemma setTab_cache_eq: "rowDataCache (state_of (setTab v t)) = rowDataCache t"
  using setTab_cache [of t "rowDataCache t" v] by (simp add: ends_with_def)

lemma onWorksheet_requests:
  assumes "wrapped_fields v T U ps" and "get r ''entry'' = Inr v"
    and "rowDataCache s (generateCacheKey s) = None"
  shows "requests (state_of (onWorksheet r s)) =
           \<lparr>target = Cellrowsajax,
            req_url = SCOPE @ ''/list/'' @ id_string (worksheetId s) @ ''/'' @ string_of_int (tabId s)
                      @ ''/private/full'',
            req_headers = headers (cellrowsajax s)\<rparr> # requests s"
proof -
  obtain s' where s': "setTab v s = Done s'"
    using setTab_projects [OF assms(1)] by blast
  have "same s (state_of (setTab v s))"
    using setTab_same [OF same_refl, of s v] by (simp add: ends_with_def)
  then have k: "same s s'" by (simp add: s')
  have c: "rowDataCache s' = rowDataCache s" using setTab_cache_eq [of v s] by (simp add: s')
  have g: "generateCacheKey s' = generateCacheKey s"
    using k by (simp add: generateCacheKey_def same_def stable_def)
  show ?thesis
    using assms(2,3) k
    by (simp add: onWorksheet_def attempt_Inr s' getCellRows_def c g generateRequest_def
        same_def stable_def)
qed

text \<open>After the list, the worksheet: the request that follows when an entry is adopted.\<close>

lemma requests_and_sync_share:
  "requests (state_of (and_sync r (share_sheet i))) = requests (state_of r)"
  by (cases r) (simp_all add: share_sheet_def)

lemma onSpreadsheetList_requests:
  assumes "get r ''feed'' = Inr feed" and "get feed ''entry'' = Inr entries" and "key s \<noteq> []"
    and "find_sheet (key s) entries 0 = Inr (Some (i, entry))"
    and "wrapped_fields entry T U ps"
    and "and_then (text_at entry ''id'') last_segment = Inr w" and "w \<noteq> []"
  shows "requests (state_of (onSpreadsheetList r s)) =
           \<lparr>target = Worksheetajax,
            req_url = SCOPE @ ''/worksheets/'' @ w @ ''/private/full/'' @ string_of_int (tabId s),
            req_headers = headers (worksheetajax s)\<rparr> # requests s"
proof -
  define s2 where "s2 = fire ''spreadsheets'' entries (s\<lparr>spreadsheets := entries\<rparr>)"
  have "onSpreadsheetList r s = and_sync (setSheet entry s2) (share_sheet i)"
    using assms(1-4) by (simp add: onSpreadsheetList_def attempt_Inr Let_def s2_def fire_def)
  then have "requests (state_of (onSpreadsheetList r s))
      = requests (state_of (sheetChanged (s2\<lparr>sheet := entry\<rparr>)))"
    by (simp add: requests_and_sync_share setSheet_def)
  also have "\<dots> = \<lparr>target = Worksheetajax,
            req_url = SCOPE @ ''/worksheets/'' @ w @ ''/private/full/''
                      @ string_of_int (tabId (s2\<lparr>sheet := entry\<rparr>)),
            req_headers = headers (worksheetajax (s2\<lparr>sheet := entry\<rparr>))\<rparr>
          # requests (s2\<lparr>sheet := entry\<rparr>)"
    using assms(5,6,7) by (intro sheetChanged_requests) simp_all
  finally show ?thesis by (simp add: s2_def fire_def)
qed

lemma run_public_headers:
  "run s evs = Some s' \<Longrightarrow> headers (publicajax s') = headers (publicajax s)"
proof (induction evs arbitrary: s)
  case Nil
  then show ?case by simp
next
  case (Cons ev evs)
  then have r: "run (state_of (handle ev s)) evs = Some s'" by (simp split: if_splits)
  have "headers (publicajax (state_of (handle ev s))) = headers (publicajax s)"
  proof (cases ev)
    case (KeySet k)
    then show ?thesis by (simp add: keyChanged_def generateRequest_def)
  next
    case (TabIdSet n)
    then show ?thesis
      using tabIdChanged_effect [OF same_refl, of "s\<lparr>tabId := n\<rparr>"]
      by (auto simp: ends_with_def configUpdate_def quiet_def sent_def stable_def)
  next
    case (PublishedSet b)
    then show ?thesis
      using tabIdChanged_effect [OF same_refl, of "s\<lparr>published := b\<rparr>"]
      by (auto simp: ends_with_def configUpdate_def quiet_def sent_def stable_def)
  next
    case (ClientIdSet c)
    then show ?thesis
      using tabIdChanged_effect [OF same_refl, of "s\<lparr>clientId := c\<rparr>"]
      by (auto simp: ends_with_def configUpdate_def quiet_def sent_def stable_def)
  next
    case (SignInSuccess token)
    then show ?thesis by (simp add: onSignInSuccess_eq)
  next
    case SignInFail
    then show ?thesis by (simp add: onSignInFail_def)
  next
    case (Response a r)
    then show ?thesis
      using onCellRows_same [OF same_refl, of s "Some r"] onSpreadsheetList_effect [of s r]
        onWorksheet_effect [of s r]
      by (cases a) (auto simp: ends_with_def same_def quiet_def sent_def stable_def)
  qed
  then show ?case using Cons.IH [OF r] by simp
qed

section \<open>The claims\<close>

text \<open>
  C1 (corrected).  The codec round-trips on the 32-bit range on which \<open>^\<close> works: for every grid
  id \<open>g\<close> with \<open>0 \<le> g < 2^31\<close>, \<open>wid_to_gid_(gid_to_wid_(g)) = g\<close>; for every canonical
  lower-case base-36 numeral \<open>w\<close> without leading zeros whose value is below \<open>2^31\<close>,
  \<open>gid_to_wid_(wid_to_gid_(w)) = w\<close>; and \<open>od4\<close> maps to grid id 2 and back.
\<close>

theorem codec_round_trip:
  "(0 \<le> g \<and> g < 2 ^ 31 \<longrightarrow> wid_to_gid (gid_to_wid (Intg g)) = g) \<and>
   (canonical36 w \<and> digits_value 36 w < 2 ^ 31 \<longrightarrow> gid_to_wid (Intg (wid_to_gid w)) = w) \<and>
   wid_to_gid ''od4'' = 2 \<and> gid_to_wid (Intg 2) = ''od4''"
proof (intro conjI impI)
  assume g: "0 \<le> g \<and> g < 2 ^ 31"
  then have r: "0 \<le> g XOR 31578" "g XOR 31578 < 2 ^ 31" using xor_key_range [of g] by simp_all
  then have "nat (g XOR 31578) < 2 ^ 31" by simp
  then have "wid_to_gid (to_digits 36 (nat (g XOR 31578))) = int (nat (g XOR 31578)) XOR 31578"
    by (rule wid_to_gid_digits)
  then show "wid_to_gid (gid_to_wid (Intg g)) = g"
    using g r by (simp add: gid_to_wid_nonneg xor_key_twice)
next
  assume w: "canonical36 w \<and> digits_value 36 w < 2 ^ 31"
  define v where "v = digits_value 36 w"
  have v: "v < 2 ^ 31" using w by (simp add: v_def)
  have "to_digits 36 v = w" using w by (simp add: v_def to_digits_canonical)
  then have "wid_to_gid w = int v XOR 31578" using wid_to_gid_digits [OF v] by simp
  moreover have "0 \<le> int v XOR 31578 \<and> int v XOR 31578 < 2 ^ 31"
    using v by (intro xor_key_range) simp_all
  moreover have "nat ((int v XOR 31578) XOR 31578) = v" by (simp add: xor_key_twice)
  ultimately show "gid_to_wid (Intg (wid_to_gid w)) = w"
    using \<open>to_digits 36 v = w\<close> by (simp add: gid_to_wid_nonneg)
next
  show "wid_to_gid ''od4'' = 2"
    by (simp add: wid_to_gid_def parseInt_def skip_sign_def js_xor_def to_int32_def is_ws_def
        is_digit_def digit_val_def digits_value_def number_of_nat_def)
next
  have "to_digits 36 31576 = ''od4''"
    by (simp add: to_digits.simps digit_char_def char_of_eq_iff)
  then show "gid_to_wid (Intg 2) = ''od4''"
    using gid_to_wid_nonneg [of 2] by simp
qed

theorem codec_round_trip_witness:
  "wid_to_gid (gid_to_wid (Intg 7)) = 7 \<and>
   canonical36 ''od6'' \<and> digits_value 36 ''od6'' < 2 ^ 31 \<and>
   gid_to_wid (Intg (wid_to_gid ''od6'')) = ''od6''"
proof -
  have c: "canonical36 ''od6'' \<and> digits_value 36 ''od6'' < 2 ^ 31"
    by (simp add: canonical36_def is_wid_char_def digits_value_def digit_val_def)
  show ?thesis using codec_round_trip [of 7 "''od6''"] c by simp
qed

text \<open>
  The second round trip fails from \<open>2^31\<close> on, whose numeral is \<open>zik0zk\<close>: \<open>^\<close> reads it as
  \<open>-2^31\<close>, and the way back writes a minus sign.
\<close>

theorem codec_round_trip_counterexample:
  "canonical36 ''zik0zk'' \<and> gid_to_wid (Intg (wid_to_gid ''zik0zk'')) = ''-zik0zk''"
proof
  show "canonical36 ''zik0zk''" by (simp add: canonical36_def is_wid_char_def)
  have "wid_to_gid ''zik0zk'' = - 2147452070"
    by (simp add: wid_to_gid_def parseInt_def skip_sign_def js_xor_def to_int32_def is_ws_def
        is_digit_def digit_val_def digits_value_def number_of_nat_def)
  moreover have "gid_to_wid (Intg (- 2147452070)) = ''-zik0zk''"
    by (simp add: gid_to_wid_def parseInt_def skip_sign_def js_xor_def to_int32_def is_ws_def
        is_digit_def digit_val_def digits_value_def number_of_nat_def string_of_int_def
        toString36_def to_digits.simps digit_char_def negate_def char_of_eq_iff)
  ultimately show "gid_to_wid (Intg (wid_to_gid ''zik0zk'')) = ''-zik0zk''" by simp
qed

text \<open>
  C9 (corrected).  \<open>wid_to_gid_\<close> is total on strings (it has no error to return), and for every
  string that, after the white space and the one sign that \<open>parseInt\<close> skips, is empty
  or does not begin with a base-36 digit, the parse is \<open>NaN\<close> and the result is 31578.
\<close>

theorem wid_to_gid_without_digit:
  assumes "skip_sign (dropWhile is_ws s) = [] \<or> \<not> is_digit 36 (hd (skip_sign (dropWhile is_ws s)))"
  shows "parseInt s 36 = NaN \<and> wid_to_gid s = 31578"
proof -
  have "takeWhile (is_digit 36) (skip_sign (dropWhile is_ws s)) = []"
    using assms by (rule takeWhile_no_head)
  then have "parseInt s 36 = NaN" by (simp add: parseInt_def Let_def)
  then show ?thesis by (simp add: wid_to_gid_def js_xor_def to_int32_key) (simp add: to_int32_def)
qed

theorem wid_to_gid_without_digit_witness:
  "parseInt [] 36 = NaN \<and> wid_to_gid [] = 31578 \<and>
   parseInt '' -!'' 36 = NaN \<and> wid_to_gid '' -!'' = 31578"
  using wid_to_gid_without_digit [of "[]"] wid_to_gid_without_digit [of "'' -!''"]
  by (simp add: skip_sign_def is_ws_def is_digit_def digit_val_def)

text \<open>
  A string whose first character is not a base-36 digit can still hold a numeral: the
  sign of \<open>-1\<close> is skipped and the result is \<open>-1 ^ 31578\<close>.
\<close>

theorem wid_to_gid_without_digit_counterexample:
  "\<not> is_digit 36 (hd ''-1'') \<and> parseInt ''-1'' 36 = Intg (- 1) \<and> wid_to_gid ''-1'' = - 31579"
  by (simp add: wid_to_gid_def parseInt_def skip_sign_def js_xor_def to_int32_def is_ws_def
      is_digit_def digit_val_def digits_value_def number_of_nat_def negate_def)

text \<open>
  C7.  The cache key tells worksheet and tab apart: with the worksheet id fixed, two
  different tab ids give different keys, so that storing under one leaves the slot of the
  other as it was; and for worksheet ids made of letters and digits, equal keys mean the
  same worksheet id and the same tab id.
\<close>

theorem cache_key_injective:
  "(t1 \<noteq> t2 \<longrightarrow>
      generateCacheKey (s\<lparr>tabId := t1\<rparr>) \<noteq> generateCacheKey (s\<lparr>tabId := t2\<rparr>) \<and>
      ((rowDataCache s)(generateCacheKey (s\<lparr>tabId := t1\<rparr>) \<mapsto> e)) (generateCacheKey (s\<lparr>tabId := t2\<rparr>))
        = rowDataCache s (generateCacheKey (s\<lparr>tabId := t2\<rparr>))) \<and>
   ((\<forall>c\<in>set w1. is_alnum c) \<and> (\<forall>c\<in>set w2. is_alnum c) \<and>
      generateCacheKey (s1\<lparr>worksheetId := Some w1, tabId := t1\<rparr>)
        = generateCacheKey (s2\<lparr>worksheetId := Some w2, tabId := t2\<rparr>)
    \<longrightarrow> w1 = w2 \<and> t1 = t2)"
proof (intro conjI impI)
  assume "t1 \<noteq> t2"
  then show ne: "generateCacheKey (s\<lparr>tabId := t1\<rparr>) \<noteq> generateCacheKey (s\<lparr>tabId := t2\<rparr>)"
    using string_of_int_inj by (auto simp: generateCacheKey_def)
  then show "((rowDataCache s)(generateCacheKey (s\<lparr>tabId := t1\<rparr>) \<mapsto> e)) (generateCacheKey (s\<lparr>tabId := t2\<rparr>))
        = rowDataCache s (generateCacheKey (s\<lparr>tabId := t2\<rparr>))"
    by simp
next
  assume a: "(\<forall>c\<in>set w1. is_alnum c) \<and> (\<forall>c\<in>set w2. is_alnum c) \<and>
      generateCacheKey (s1\<lparr>worksheetId := Some w1, tabId := t1\<rparr>)
        = generateCacheKey (s2\<lparr>worksheetId := Some w2, tabId := t2\<rparr>)"
  then have "w1 @ CHR ''_'' # string_of_int t1 = w2 @ CHR ''_'' # string_of_int t2"
    by (simp add: generateCacheKey_def id_string_def)
  then have "w1 = w2 \<and> string_of_int t1 = string_of_int t2"
    using a alnum_not_underscore by (intro split_at_underscore) auto
  then show "w1 = w2" and "t1 = t2" using string_of_int_inj by auto
qed

theorem cache_key_injective_witness:
  "generateCacheKey (init\<lparr>tabId := 1\<rparr>) \<noteq> generateCacheKey (init\<lparr>tabId := 2\<rparr>) \<and>
   generateCacheKey (init\<lparr>worksheetId := Some ''od6'', tabId := 1\<rparr>)
     = generateCacheKey (init\<lparr>worksheetId := Some ''od6'', tabId := 1\<rparr>) \<and>
   is_alnum CHR ''o'' \<and> is_alnum CHR ''d'' \<and> is_alnum CHR ''6''"
  using cache_key_injective [where ?t1.0 = 1 and ?t2.0 = 2 and s = init and ?w1.0 = "''od6''" and ?w2.0 = "''od6''" and ?s1.0 = init and ?s2.0 = init]
  by (simp add: is_alnum_def)

subsection \<open>A sample run\<close>

lemma digit_one: "to_digits 10 (Suc 0) = ''1''"
  by (simp add: to_digits.simps digit_char_def char_of_eq_iff)

lemma string_of_one: "string_of_int 1 = ''1''"
  by (simp add: string_of_int_def digit_one)

lemma string_of_two: "string_of_int 2 = ''2''"
  by (simp add: string_of_int_def to_digits.simps digit_char_def char_of_eq_iff)

lemmas eval_defs =
  sample_events_def sample_rows_def sample_feed_def sample_worksheet_def sample_tab_def
  sample_list_def sample_sheet_def sample_author_def wrapped_def init_def
  keyChanged_def configUpdate_def tabIdChanged_def onSignInSuccess_eq onSignInFail_def
  onSpreadsheetList_def onWorksheet_def onCellRows_def
  setSheet_def sheetChanged_def setTab_def tabChanged_def getWorksheet_def getCellRows_def
  generateRequest_def generateCacheKey_def fire_def attempt_def and_then_def text_at_def
  authors_of_def author_pair_def polymer_set_def last_segment_def has_key_def has_id_def
  id_string_def recache_def cache_entry_def share_sheet_def getLink_def getLink_from.simps
  find_sheet.simps field_def string_of_one string_of_two
  bearer_def SCOPE_def Let_def

text \<open>
  The private flow on the sample responses: the key is set, the user signs in, and the
  three responses come in.
\<close>

lemma sample_run:
  "\<exists>s. run init sample_events = Some s \<and>
     map (\<lambda>q. (target q, req_url q)) (requests s) =
       [(Cellrowsajax, ''https://spreadsheets.google.com/feeds/list/od6/1/private/full''),
        (Worksheetajax, ''https://spreadsheets.google.com/feeds/worksheets/od6/private/full/1''),
        (Listsheetsajax, ''https://spreadsheets.google.com/feeds/spreadsheets/private/full'')] \<and>
     generateCacheKey s = ''od6_1'' \<and> rowDataCache s ''od6_1'' \<noteq> None \<and>
     worksheetId s = Some ''od6'' \<and> tabId s = 1"
  by (simp add: eval_defs)

lemma sample_run_Some: "run init sample_events = Some (the (run init sample_events))"
  using sample_run by auto

text \<open>
  The run goes on: the tab id is set to 2, for which the rows are requested, and the
  response comes in.  The cache then holds the rows of both tabs.
\<close>

lemma second_run:
  "\<exists>s. run init second_fetch = Some s \<and> tabId s = 2 \<and> clientId s = [] \<and>
     worksheetId s = Some ''od6'' \<and>
     rowDataCache s ''od6_1'' \<noteq> None \<and> rowDataCache s ''od6_2'' \<noteq> None \<and>
     map target (requests s) = [Cellrowsajax, Cellrowsajax, Worksheetajax, Listsheetsajax]"
  by (simp add: second_fetch_def eval_defs)

text \<open>After a response to a request for rows, the cache holds an entry under the element's key.\<close>

lemma onCellRows_fills:
  assumes "get r ''feed'' = Inr feed"
  shows "rowDataCache (state_of (onCellRows (Some r) s))
           (generateCacheKey (state_of (onCellRows (Some r) s))) \<noteq> None"
proof -
  define s' where "s' = state_of (onCellRows (Some r) s)"
  have "same s s'"
    using onCellRows_same [OF same_refl, of s "Some r"] by (simp add: ends_with_def s'_def)
  then have k: "generateCacheKey s' = generateCacheKey s"
    by (simp add: same_def stable_def generateCacheKey_def)
  have "slot (rowDataCache s) (generateCacheKey s) (rowDataCache s')"
    using onCellRows_slot [OF assms, of s] by (simp add: ends_with_def s'_def)
  then have "rowDataCache s' (generateCacheKey s) \<noteq> None"
    by (cases "rowDataCache s (generateCacheKey s) = None") (auto simp: slot_def)
  then show ?thesis using k by (simp add: s'_def)
qed

text \<open>
  C2 (the code fails the claim).  A fetch of rows for a pair that is in the cache sends no
  request, and delivers nothing either: \<open>_getCellRows\<close> passes \<open>null\<close> for the event, on
  which \<open>_onCellRows\<close> throws a \<open>TypeError\<close> before it reads the entry; no rows are set and
  no event is fired.  So it is for the second fetch after a response to the first; when
  the tab id is changed to one whose rows are in the cache; and when the client id is
  changed while the rows of the current tab are in the cache.  In the last two the new
  value of the property is stored, and nothing else changes.
\<close>

theorem cache_hit_throws:
  "(rowDataCache s (generateCacheKey s) \<noteq> None \<longrightarrow> getCellRows s = Threw TypeError s) \<and>
   (get r ''feed'' = Inr feed \<longrightarrow>
      getCellRows (state_of (handle (Response Cellrowsajax r) s))
        = Threw TypeError (state_of (handle (Response Cellrowsajax r) s))) \<and>
   (has_id (worksheetId s) \<and> t \<noteq> tabId s \<and>
    rowDataCache s (generateCacheKey (s\<lparr>tabId := t\<rparr>)) \<noteq> None \<longrightarrow>
      handle (TabIdSet t) s = Threw TypeError (s\<lparr>tabId := t\<rparr>)) \<and>
   (has_id (worksheetId s) \<and> i \<noteq> clientId s \<and> rowDataCache s (generateCacheKey s) \<noteq> None \<longrightarrow>
      handle (ClientIdSet i) s = Threw TypeError (s\<lparr>clientId := i\<rparr>))"
proof -
  have hit: "getCellRows u = Threw TypeError u" if "rowDataCache u (generateCacheKey u) \<noteq> None" for u
    using that by (auto simp: getCellRows_def onCellRows_def)
  have 1: "rowDataCache s (generateCacheKey s) \<noteq> None \<longrightarrow> getCellRows s = Threw TypeError s"
    using hit by simp
  have 2: "get r ''feed'' = Inr feed \<longrightarrow>
      getCellRows (state_of (handle (Response Cellrowsajax r) s))
        = Threw TypeError (state_of (handle (Response Cellrowsajax r) s))"
    using hit [of "state_of (onCellRows (Some r) s)"] onCellRows_fills [of r feed s] by simp
  have 3: "has_id (worksheetId s) \<and> t \<noteq> tabId s \<and>
    rowDataCache s (generateCacheKey (s\<lparr>tabId := t\<rparr>)) \<noteq> None \<longrightarrow>
      handle (TabIdSet t) s = Threw TypeError (s\<lparr>tabId := t\<rparr>)"
    using hit [of "s\<lparr>tabId := t\<rparr>"] by (simp add: configUpdate_def tabIdChanged_def)
  have 4: "has_id (worksheetId s) \<and> i \<noteq> clientId s \<and> rowDataCache s (generateCacheKey s) \<noteq> None \<longrightarrow>
      handle (ClientIdSet i) s = Threw TypeError (s\<lparr>clientId := i\<rparr>)"
    using hit [of "s\<lparr>clientId := i\<rparr>"]
    by (simp add: configUpdate_def tabIdChanged_def generateCacheKey_def)
  show ?thesis using 1 2 3 4 by blast
qed

theorem cache_hit_throws_witness:
  "tabId (the (run init second_fetch)) = 2 \<and>
   has_id (worksheetId (the (run init second_fetch))) \<and>
   rowDataCache (the (run init second_fetch)) (generateCacheKey (the (run init second_fetch))) \<noteq> None \<and>
   rowDataCache (the (run init second_fetch))
     (generateCacheKey ((the (run init second_fetch))\<lparr>tabId := 1\<rparr>)) \<noteq> None \<and>
   getCellRows (the (run init second_fetch)) = Threw TypeError (the (run init second_fetch)) \<and>
   getCellRows (state_of (handle (Response Cellrowsajax sample_rows) (the (run init second_fetch))))
     = Threw TypeError (state_of (handle (Response Cellrowsajax sample_rows) (the (run init second_fetch)))) \<and>
   handle (TabIdSet 1) (the (run init second_fetch))
     = Threw TypeError ((the (run init second_fetch))\<lparr>tabId := 1\<rparr>) \<and>
   handle (ClientIdSet ''id'') (the (run init second_fetch))
     = Threw TypeError ((the (run init second_fetch))\<lparr>clientId := ''id''\<rparr>)"
proof -
  from second_run obtain s where s0: "run init second_fetch = Some s \<and> tabId s = 2 \<and> clientId s = [] \<and>
     worksheetId s = Some ''od6'' \<and>
     rowDataCache s ''od6_1'' \<noteq> None \<and> rowDataCache s ''od6_2'' \<noteq> None \<and>
     map target (requests s) = [Cellrowsajax, Cellrowsajax, Worksheetajax, Listsheetsajax]" ..
  then have s: "run init second_fetch = Some s" "tabId s = 2" "clientId s = []"
    "worksheetId s = Some ''od6''" "rowDataCache s ''od6_1'' \<noteq> None" "rowDataCache s ''od6_2'' \<noteq> None"
    by simp_all
  have k: "generateCacheKey s = ''od6_2''" "generateCacheKey (s\<lparr>tabId := 1\<rparr>) = ''od6_1''"
    "has_id (worksheetId s)"
    using s by (simp_all add: generateCacheKey_def id_string_def has_id_def string_of_one string_of_two)
  have f: "get sample_rows ''feed'' = Inr sample_feed"
    by (simp add: sample_rows_def field_def)
  show ?thesis
    using cache_hit_throws [of s sample_rows sample_feed 1 "''id''"] s k f by simp
qed

text \<open>
  C3 (corrected).  It is the request for the worksheet that fails fast: with no worksheet id,
  \<open>_getWorksheet\<close> throws the error at once, sends nothing and leaves the state as it is;
  and in the private flow a change of the configuration then does nothing at all.
\<close>

theorem worksheet_fail_fast:
  "\<not> has_id (worksheetId s) \<longrightarrow>
     getWorksheet s = Threw (Error ''workesheetId was not given.'') s \<and>
     (\<not> published s \<longrightarrow> tabIdChanged s = Done s)"
  by (simp add: getWorksheet_def tabIdChanged_def)

theorem worksheet_fail_fast_witness:
  "\<not> has_id (worksheetId init) \<and> \<not> published init \<and>
   getWorksheet init = Threw (Error ''workesheetId was not given.'') init \<and>
   tabIdChanged init = Done init"
  using worksheet_fail_fast [of init] by (simp add: init_def has_id_def)

text \<open>
  The fetch of the rows itself has no such check: called on the element as created, with
  no worksheet id, it sends a request for the rows of worksheet \<open>null\<close>.
\<close>

theorem rows_without_worksheet_counterexample:
  "\<not> has_id (worksheetId init) \<and> \<not> published init \<and>
   getCellRows init =
     Done (init\<lparr>cellrowsajax := \<lparr>url = ''https://spreadsheets.google.com/feeds/list/null/1/private/full'', headers = []\<rparr>,
                requests := [\<lparr>target = Cellrowsajax,
                               req_url = ''https://spreadsheets.google.com/feeds/list/null/1/private/full'',
                               req_headers = []\<rparr>]\<rparr>)"
  by (simp add: init_def has_id_def getCellRows_def generateCacheKey_def generateRequest_def
      id_string_def SCOPE_def string_of_one)

text \<open>
  C4 (corrected).  No event removes or replaces an entry of the cache; and a row-feed response
  fills the slot of the element's key, if it is empty, with an entry of the shape
  \<open>{response: {feed: ...}}\<close>, and leaves the whole cache as it is otherwise.
\<close>

theorem cache_write_once:
  "rowDataCache s \<subseteq>\<^sub>m rowDataCache (state_of (handle ev s)) \<and>
   (get r ''feed'' = Inr feed \<and> (a = Cellrowsajax \<or> a = Publicajax) \<longrightarrow>
      (rowDataCache s (generateCacheKey s) = None \<longrightarrow>
         (\<exists>f. rowDataCache (state_of (handle (Response a r) s))
                = (rowDataCache s)(generateCacheKey s \<mapsto> Obj [(''response'', Obj [(''feed'', f)])]))) \<and>
      (rowDataCache s (generateCacheKey s) \<noteq> None \<longrightarrow>
         rowDataCache (state_of (handle (Response a r) s)) = rowDataCache s))"
  using handle_cache [of s ev] handle_slot [of r feed a s]
  by (auto simp: slot_def cache_entry_def)

theorem cache_write_once_witness:
  "get sample_rows ''feed'' = Inr sample_feed \<and>
   rowDataCache init (generateCacheKey init) = None \<and>
   rowDataCache (state_of (handle (Response Cellrowsajax sample_rows) init)) (generateCacheKey init) \<noteq> None \<and>
   rowDataCache (the (run init sample_events)) (generateCacheKey (the (run init sample_events))) \<noteq> None \<and>
   rowDataCache (state_of (handle (Response Cellrowsajax sample_rows) (the (run init sample_events))))
     = rowDataCache (the (run init sample_events))"
proof -
  have f: "get sample_rows ''feed'' = Inr sample_feed"
    by (simp add: sample_rows_def field_def)
  have i: "rowDataCache init (generateCacheKey init) = None" by (simp add: init_def)
  from sample_run obtain s where s0: "run init sample_events = Some s \<and>
     map (\<lambda>q. (target q, req_url q)) (requests s) =
       [(Cellrowsajax, ''https://spreadsheets.google.com/feeds/list/od6/1/private/full''),
        (Worksheetajax, ''https://spreadsheets.google.com/feeds/worksheets/od6/private/full/1''),
        (Listsheetsajax, ''https://spreadsheets.google.com/feeds/spreadsheets/private/full'')] \<and>
     generateCacheKey s = ''od6_1'' \<and> rowDataCache s ''od6_1'' \<noteq> None \<and>
     worksheetId s = Some ''od6'' \<and> tabId s = 1" ..
  then have s: "run init sample_events = Some s" "rowDataCache s (generateCacheKey s) \<noteq> None"
    by simp_all
  have "\<exists>f. rowDataCache (state_of (handle (Response Cellrowsajax sample_rows) init))
           = (rowDataCache init)(generateCacheKey init \<mapsto> Obj [(''response'', Obj [(''feed'', f)])])"
    using cache_write_once [of init SignInFail sample_rows sample_feed Cellrowsajax] f i by blast
  then have a: "rowDataCache (state_of (handle (Response Cellrowsajax sample_rows) init))
      (generateCacheKey init) \<noteq> None"
    by auto
  have b: "rowDataCache (state_of (handle (Response Cellrowsajax sample_rows) s)) = rowDataCache s"
    using cache_write_once [of s SignInFail sample_rows sample_feed Cellrowsajax] f s(2) by blast
  show ?thesis using f i a b s by simp
qed

text \<open>
  The entry is not of the shape \<open>{feed: RowFeed}\<close>: after a response, the entry stored has
  no property \<open>feed\<close>; the feed is under its property \<open>response\<close>.
\<close>

theorem cache_entry_shape_counterexample:
  "get (the (rowDataCache (state_of (handle (Response Cellrowsajax (Obj [(''feed'', Obj [])])) init)) ''null_1'')) ''feed''
     = Inr Undefined \<and>
   get (the (rowDataCache (state_of (handle (Response Cellrowsajax (Obj [(''feed'', Obj [])])) init)) ''null_1'')) ''response''
     = Inr (Obj [(''feed'', Obj [])])"
  by (simp add: eval_defs)

text \<open>
  C5.  The private flow, for an element that is not published, from a state in which it has
  no worksheet id and has sent nothing, under any events that do not touch \<open>published\<close>:
  setting the key sends nothing; as long as no sign-in has succeeded, nothing has been sent;
  a sign-in success sends the request for the list of spreadsheets, to
  \<open>/spreadsheets/private/full\<close> with the bearer header; a response to it in which a matching
  entry is found sends the request for the worksheet; a response to that sends the request
  for the rows (when they are not in the cache); and in what has been sent, no request
  goes to the public feed, every request carries a bearer header, a worksheet request
  comes after a list request, and a request for rows after a worksheet request.
\<close>

theorem private_flow_sequencing:
  assumes "\<not> published s0" and "\<not> has_id (worksheetId s0)" and "requests s0 = []"
    and "\<forall>ev\<in>set evs. \<not> sets_published ev"
    and "run s0 evs = Some s"
  shows "handle (KeySet k) s = Done (s\<lparr>key := k\<rparr>) \<and>
    ((\<forall>ev\<in>set evs. \<not> is_sign_in ev) \<longrightarrow> requests s = []) \<and>
    requests (state_of (handle (SignInSuccess token) s)) =
      \<lparr>target = Listsheetsajax,
       req_url = ''https://spreadsheets.google.com/feeds/spreadsheets/private/full'',
       req_headers = [(''Authorization'', ''Bearer '' @ token)]\<rparr> # requests s \<and>
    (get r ''feed'' = Inr feed \<and> get feed ''entry'' = Inr entries \<and> key s \<noteq> [] \<and>
     find_sheet (key s) entries 0 = Inr (Some (i, entry)) \<and>
     wrapped_fields entry title updated authors \<and>
     and_then (text_at entry ''id'') last_segment = Inr w \<and> w \<noteq> [] \<longrightarrow>
       requests (state_of (handle (Response Listsheetsajax r) s)) =
         \<lparr>target = Worksheetajax,
          req_url = ''https://spreadsheets.google.com/feeds/worksheets/'' @ w @ ''/private/full/''
                    @ string_of_int (tabId s),
          req_headers = headers (worksheetajax s)\<rparr> # requests s) \<and>
    (get r ''entry'' = Inr v \<and> wrapped_fields v title updated authors \<and>
     rowDataCache s (generateCacheKey s) = None \<longrightarrow>
       requests (state_of (handle (Response Worksheetajax r) s)) =
         \<lparr>target = Cellrowsajax,
          req_url = ''https://spreadsheets.google.com/feeds/list/'' @ id_string (worksheetId s) @ ''/''
                    @ string_of_int (tabId s) @ ''/private/full'',
          req_headers = headers (cellrowsajax s)\<rparr> # requests s) \<and>
    in_order (requests s) \<and>
    (\<forall>q\<in>set (requests s).
       (\<exists>token. req_headers q = [(''Authorization'', ''Bearer '' @ token)]) \<and>
       (target q = Listsheetsajax \<longrightarrow>
          req_url q = ''https://spreadsheets.google.com/feeds/spreadsheets/private/full''))"
proof -
  have idle: "idle s0" using assms(1-3) by (simp add: idle_def)
  then have inv: "private_inv s" using assms(4,5) idle_inv inv_run by blast
  have 1: "handle (KeySet k) s = Done (s\<lparr>key := k\<rparr>)"
    using inv by (simp add: keyChanged_def private_inv_def)
  have 2: "(\<forall>ev\<in>set evs. \<not> is_sign_in ev) \<longrightarrow> requests s = []"
  proof
    assume "\<forall>ev\<in>set evs. \<not> is_sign_in ev"
    then have "\<forall>ev\<in>set evs. \<not> sets_published ev \<and> \<not> is_sign_in ev" using assms(4) by blast
    then have "idle s" using idle assms(5) idle_run by blast
    then show "requests s = []" by (simp add: idle_def)
  qed
  have 3: "requests (state_of (handle (SignInSuccess token) s)) =
      \<lparr>target = Listsheetsajax,
       req_url = ''https://spreadsheets.google.com/feeds/spreadsheets/private/full'',
       req_headers = [(''Authorization'', ''Bearer '' @ token)]\<rparr> # requests s"
    by (simp add: onSignInSuccess_eq SCOPE_def bearer_def)
  have 4: "get r ''feed'' = Inr feed \<and> get feed ''entry'' = Inr entries \<and> key s \<noteq> [] \<and>
     find_sheet (key s) entries 0 = Inr (Some (i, entry)) \<and>
     wrapped_fields entry title updated authors \<and>
     and_then (text_at entry ''id'') last_segment = Inr w \<and> w \<noteq> [] \<longrightarrow>
       requests (state_of (handle (Response Listsheetsajax r) s)) =
         \<lparr>target = Worksheetajax,
          req_url = ''https://spreadsheets.google.com/feeds/worksheets/'' @ w @ ''/private/full/''
                    @ string_of_int (tabId s),
          req_headers = headers (worksheetajax s)\<rparr> # requests s"
    using onSpreadsheetList_requests [of r feed entries s i entry title updated authors w]
    by (simp add: SCOPE_def)
  have 5: "get r ''entry'' = Inr v \<and> wrapped_fields v title updated authors \<and>
     rowDataCache s (generateCacheKey s) = None \<longrightarrow>
       requests (state_of (handle (Response Worksheetajax r) s)) =
         \<lparr>target = Cellrowsajax,
          req_url = ''https://spreadsheets.google.com/feeds/list/'' @ id_string (worksheetId s) @ ''/''
                    @ string_of_int (tabId s) @ ''/private/full'',
          req_headers = headers (cellrowsajax s)\<rparr> # requests s"
    using onWorksheet_requests [of v title updated authors r s]
    by (simp add: SCOPE_def)
  have 6: "in_order (requests s)" using inv by (simp add: private_inv_def)
  have 7: "\<forall>q\<in>set (requests s).
       (\<exists>token. req_headers q = [(''Authorization'', ''Bearer '' @ token)]) \<and>
       (target q = Listsheetsajax \<longrightarrow>
          req_url q = ''https://spreadsheets.google.com/feeds/spreadsheets/private/full'')"
    using inv by (simp add: private_inv_def bearer_def SCOPE_def)
  from 1 2 3 4 5 6 7 show ?thesis by blast
qed

lemma short_runs:
  "\<exists>s. run init [KeySet ''K1'', TabIdSet 2] = Some s \<and> requests s = []"
  "\<exists>s. run init (take 2 sample_events) = Some s \<and> key s = ''K1'' \<and> tabId s = 1 \<and>
        map target (requests s) = [Listsheetsajax] \<and>
        headers (worksheetajax s) = [(''Authorization'', ''Bearer tok'')]"
  "\<exists>s. run init (take 3 sample_events) = Some s \<and> worksheetId s = Some ''od6'' \<and> tabId s = 1 \<and>
        map target (requests s) = [Worksheetajax, Listsheetsajax] \<and>
        rowDataCache s (generateCacheKey s) = None \<and>
        headers (cellrowsajax s) = [(''Authorization'', ''Bearer tok'')]"
  by (simp_all add: eval_defs)

lemma sample_list_match:
  "get sample_list ''feed'' = Inr (Obj [(''entry'', Arr [sample_sheet] [])])"
  "get (Obj [(''entry'', Arr [sample_sheet] [])]) ''entry'' = Inr (Arr [sample_sheet] [])"
  "find_sheet ''K1'' (Arr [sample_sheet] []) 0 = Inr (Some (0, sample_sheet))"
  "and_then (text_at sample_sheet ''id'') last_segment = Inr ''od6''"
  "get sample_worksheet ''entry'' = Inr sample_tab"
  by (simp_all add: sample_list_def sample_sheet_def sample_worksheet_def wrapped_def field_def
      find_sheet.simps getLink_def getLink_from.simps and_then_def has_key_def text_at_def
      last_segment_def)

lemma sample_wrapped:
  "wrapped_fields sample_sheet ''Budget'' ''2015-03-01T10:00:00.000Z'' [(''ann@x.org'', ''Ann'')]"
  "wrapped_fields sample_tab ''Sheet1'' ''2015-03-02T10:00:00.000Z'' [(''ann@x.org'', ''Ann'')]"
  "wrapped_fields sample_feed ''Sheet1'' ''2015-03-02T10:00:00.000Z'' [(''ann@x.org'', ''Ann'')]"
  by (simp_all add: wrapped_fields_def sample_sheet_def sample_tab_def sample_feed_def
      sample_author_def wrapped_def text_at_def and_then_def field_def api_author_def)

theorem private_flow_sequencing_witness:
  "requests (the (run init [KeySet ''K1'', TabIdSet 2])) = [] \<and>
   requests (state_of (handle (Response Listsheetsajax sample_list) (the (run init (take 2 sample_events))))) =
     \<lparr>target = Worksheetajax,
      req_url = ''https://spreadsheets.google.com/feeds/worksheets/od6/private/full/1'',
      req_headers = [(''Authorization'', ''Bearer tok'')]\<rparr> # requests (the (run init (take 2 sample_events))) \<and>
   requests (state_of (handle (Response Worksheetajax sample_worksheet) (the (run init (take 3 sample_events))))) =
     \<lparr>target = Cellrowsajax,
      req_url = ''https://spreadsheets.google.com/feeds/list/od6/1/private/full'',
      req_headers = [(''Authorization'', ''Bearer tok'')]\<rparr> # requests (the (run init (take 3 sample_events))) \<and>
   map target (requests (the (run init sample_events))) = [Cellrowsajax, Worksheetajax, Listsheetsajax] \<and>
   in_order (requests (the (run init sample_events)))"
proof -
  have start: "\<not> published init" "\<not> has_id (worksheetId init)" "requests init = []"
    by (simp_all add: init_def has_id_def)
  obtain s1 where s1: "run init [KeySet ''K1'', TabIdSet 2] = Some s1"
    using short_runs(1) by blast
  obtain s2 where s2: "run init (take 2 sample_events) = Some s2" "key s2 = ''K1''" "tabId s2 = 1"
      "headers (worksheetajax s2) = [(''Authorization'', ''Bearer tok'')]"
    using short_runs(2) by blast
  obtain s3 where s3: "run init (take 3 sample_events) = Some s3" "worksheetId s3 = Some ''od6''"
      "tabId s3 = 1" "rowDataCache s3 (generateCacheKey s3) = None"
      "headers (cellrowsajax s3) = [(''Authorization'', ''Bearer tok'')]"
    using short_runs(3) by blast
  from sample_run obtain s where s0: "run init sample_events = Some s \<and>
     map (\<lambda>q. (target q, req_url q)) (requests s) =
       [(Cellrowsajax, ''https://spreadsheets.google.com/feeds/list/od6/1/private/full''),
        (Worksheetajax, ''https://spreadsheets.google.com/feeds/worksheets/od6/private/full/1''),
        (Listsheetsajax, ''https://spreadsheets.google.com/feeds/spreadsheets/private/full'')] \<and>
     generateCacheKey s = ''od6_1'' \<and> rowDataCache s ''od6_1'' \<noteq> None \<and>
     worksheetId s = Some ''od6'' \<and> tabId s = 1" ..
  then have s: "run init sample_events = Some s"
      "map (\<lambda>q. (target q, req_url q)) (requests s) =
       [(Cellrowsajax, ''https://spreadsheets.google.com/feeds/list/od6/1/private/full''),
        (Worksheetajax, ''https://spreadsheets.google.com/feeds/worksheets/od6/private/full/1''),
        (Listsheetsajax, ''https://spreadsheets.google.com/feeds/spreadsheets/private/full'')]"
    by simp_all
  have t: "map target (requests s) = map fst (map (\<lambda>q. (target q, req_url q)) (requests s))"
    by (simp add: comp_def)
  have a: "requests s1 = []"
    using private_flow_sequencing [OF start _ s1] by simp
  have b: "requests (state_of (handle (Response Listsheetsajax sample_list) s2)) =
     \<lparr>target = Worksheetajax,
      req_url = ''https://spreadsheets.google.com/feeds/worksheets/od6/private/full/1'',
      req_headers = [(''Authorization'', ''Bearer tok'')]\<rparr> # requests s2"
    using private_flow_sequencing [OF start _ s2(1), where r = sample_list
        and feed = "Obj [(''entry'', Arr [sample_sheet] [])]" and entries = "Arr [sample_sheet] []"
        and i = 0 and entry = sample_sheet and w = "''od6''" and title = "''Budget''"
        and updated = "''2015-03-01T10:00:00.000Z''" and authors = "[(''ann@x.org'', ''Ann'')]"]
      sample_list_match sample_wrapped s2(2-4)
    by (simp add: sample_events_def string_of_one)
  have c: "requests (state_of (handle (Response Worksheetajax sample_worksheet) s3)) =
     \<lparr>target = Cellrowsajax,
      req_url = ''https://spreadsheets.google.com/feeds/list/od6/1/private/full'',
      req_headers = [(''Authorization'', ''Bearer tok'')]\<rparr> # requests s3"
    using private_flow_sequencing [OF start _ s3(1), where r = sample_worksheet and v = sample_tab
        and title = "''Sheet1''" and updated = "''2015-03-02T10:00:00.000Z''"
        and authors = "[(''ann@x.org'', ''Ann'')]"]
      sample_list_match sample_wrapped s3(2-5)
    by (simp add: sample_events_def string_of_one id_string_def)
  have d: "in_order (requests s)"
    using private_flow_sequencing [OF start _ s(1)] by (simp add: sample_events_def)
  show ?thesis using a b c d s s1 s2 s3 t by simp
qed

text \<open>
  C6.  The public flow: on a published element, setting the key to a new value that is not
  empty sends exactly one request, a GET of the public child for
  \<open>/list/{key}/{tabId}/public/values\<close>, and changes nothing else: no worksheet id is
  derived and no other child is used.  The request
  carries the headers of the public child, which no event ever sets: on an element that
  has run from its creation there are none, so nothing of a sign-in is attached.
\<close>

theorem public_key_set:
  "(published s \<and> k \<noteq> [] \<and> k \<noteq> key s \<longrightarrow>
      handle (KeySet k) s =
        Done (s\<lparr>key := k,
                publicajax := (publicajax s)
                  \<lparr>url := ''https://spreadsheets.google.com/feeds/list/'' @ k @ ''/''
                            @ string_of_int (tabId s) @ ''/public/values''\<rparr>,
                requests :=
                  \<lparr>target = Publicajax,
                   req_url = ''https://spreadsheets.google.com/feeds/list/'' @ k @ ''/''
                             @ string_of_int (tabId s) @ ''/public/values'',
                   req_headers = headers (publicajax s)\<rparr> # requests s\<rparr>)) \<and>
   (run init evs = Some s \<longrightarrow> headers (publicajax s) = [])"
proof -
  have "run init evs = Some s \<Longrightarrow> headers (publicajax s) = []"
    using run_public_headers [of init evs s] by (simp add: init_def)
  then show ?thesis by (auto simp: keyChanged_def generateRequest_def SCOPE_def)
qed

theorem public_key_set_witness:
  "published (the (run init [PublishedSet True])) \<and>
   key (the (run init [PublishedSet True])) = [] \<and>
   handle (KeySet ''K1'') (the (run init [PublishedSet True])) =
     Done ((the (run init [PublishedSet True]))
       \<lparr>key := ''K1'',
        publicajax := \<lparr>url = ''https://spreadsheets.google.com/feeds/list/K1/1/public/values'', headers = []\<rparr>,
        requests :=
          \<lparr>target = Publicajax,
           req_url = ''https://spreadsheets.google.com/feeds/list/K1/1/public/values'',
           req_headers = []\<rparr> # requests (the (run init [PublishedSet True]))\<rparr>)"
proof -
  obtain s where s: "run init [PublishedSet True] = Some s" "published s" "tabId s = 1" "key s = []"
    by (simp add: eval_defs)
  have h: "headers (publicajax s) = []"
    using public_key_set [of s "''K1''" "[PublishedSet True]"] s(1) by simp
  then have p: "(publicajax s)\<lparr>url := u\<rparr> = \<lparr>url = u, headers = []\<rparr>" for u
    by (cases "publicajax s") simp
  show ?thesis
    using public_key_set [of s "''K1''" "[PublishedSet True]"] s h
    by (simp add: string_of_one p)
qed

text \<open>
  C8.  Projection: for a sheet with wrapped title and time stamp and a list of authors,
  after \<open>_setSheet\<close> the title of \<open>sheet\<close> is the plain string, \<open>updated\<close> is the date made
  from the time stamp, and \<open>authors\<close> are the pairs of e-mail address and name in the order
  of the input; and the same holds of \<open>tab\<close> on both paths, after the worksheet response
  of the private flow and after the row feed of a published sheet (whose rows are an
  array or absent).
\<close>

theorem projection_correct:
  assumes "wrapped_fields v title updated authors"
  shows "projected (sheet (state_of (setSheet v s))) title updated authors \<and>
    (get r ''entry'' = Inr v \<longrightarrow>
       projected (tab (state_of (onWorksheet r s))) title updated authors) \<and>
    (published s \<and> get r ''feed'' = Inr v \<and> get v ''entry'' = Inr x \<and> is_rows x \<longrightarrow>
       projected (tab (state_of (onCellRows (Some r) s))) title updated authors)"
proof (intro conjI impI)
  show "projected (sheet (state_of (setSheet v s))) title updated authors"
    unfolding setSheet_def using assms by (intro sheetChanged_projects) simp
next
  assume r: "get r ''entry'' = Inr v"
  obtain s' where s': "setTab v s = Done s'" "projected (tab s') title updated authors"
    using setTab_projects [OF assms] by blast
  then show "projected (tab (state_of (onWorksheet r s))) title updated authors"
    using r by (simp add: onWorksheet_def attempt_Inr getCellRows_tab)
next
  assume "published s \<and> get r ''feed'' = Inr v \<and> get v ''entry'' = Inr x \<and> is_rows x"
  then have p: "published s" "get r ''feed'' = Inr v" "get v ''entry'' = Inr x" "is_rows x"
    by simp_all
  from p assms show "projected (tab (state_of (onCellRows (Some r) s))) title updated authors"
    by (rule public_tab_projects)
qed

theorem projection_correct_witness:
  "wrapped_fields sample_sheet ''Budget'' ''2015-03-01T10:00:00.000Z'' [(''ann@x.org'', ''Ann'')] \<and>
   projected (sheet (state_of (setSheet sample_sheet init)))
     ''Budget'' ''2015-03-01T10:00:00.000Z'' [(''ann@x.org'', ''Ann'')] \<and>
   get sample_worksheet ''entry'' = Inr sample_tab \<and>
   projected (tab (state_of (onWorksheet sample_worksheet init)))
     ''Sheet1'' ''2015-03-02T10:00:00.000Z'' [(''ann@x.org'', ''Ann'')] \<and>
   get sample_rows ''feed'' = Inr sample_feed \<and>
   projected (tab (state_of (onCellRows (Some sample_rows) (init\<lparr>published := True\<rparr>))))
     ''Sheet1'' ''2015-03-02T10:00:00.000Z'' [(''ann@x.org'', ''Ann'')]"
proof -
  have e: "get sample_rows ''feed'' = Inr sample_feed"
    "get sample_feed ''entry'' = Inr (Arr [Obj [(''gsx$lat'', wrapped ''1'')]] [])"
    by (simp_all add: sample_rows_def sample_feed_def field_def)
  show ?thesis
    using projection_correct [OF sample_wrapped(1), of init]
      projection_correct [OF sample_wrapped(2), of init sample_worksheet]
      projection_correct [OF sample_wrapped(3), of "init\<lparr>published := True\<rparr>" sample_rows
        "Arr [Obj [(''gsx$lat'', wrapped ''1'')]] []"]
      sample_wrapped sample_list_match(5) e
    by simp
qed

text \<open>
  C10.  The guard on the title: when the value assigned to \<open>sheet\<close> or to \<open>tab\<close> is an
  object without a \<open>title\<close>, the observer returns at once.  The state is the one before
  with the value stored: no field of the value is rewritten, no worksheet id is derived,
  no request is sent and no event is fired.
\<close>

theorem missing_title_guard:
  assumes "''title'' \<notin> fst ` set fs"
  shows "setSheet (Obj fs) s = Done (s\<lparr>sheet := Obj fs\<rparr>) \<and>
         setTab (Obj fs) s = Done (s\<lparr>tab := Obj fs\<rparr>)"
  using assms
  by (simp add: setSheet_def sheetChanged_def setTab_def tabChanged_def attempt_def field_absent)

theorem missing_title_guard_witness:
  "setSheet (Obj [(''id'', Str ''x'')]) init = Done (init\<lparr>sheet := Obj [(''id'', Str ''x'')]\<rparr>) \<and>
   setTab (Obj [(''id'', Str ''x'')]) init = Done (init\<lparr>tab := Obj [(''id'', Str ''x'')]\<rparr>)"
  using missing_title_guard [of "[(''id'', Str ''x'')]" init] by simp

end
